theory Spec2Isabelle
  imports Main "HOL-Library.Word" "HOL-Library.AList"
begin

section \<open>Byte-slice helpers of the Go standard library\<close>

text \<open>
  Paths and header values are Go byte slices, modelled as \<open>string\<close> (a list of
  8-bit characters). \<open>bytes.IndexByte\<close> and \<open>bytes.Index\<close> return the position of
  the first occurrence, or \<open>-1\<close> when there is none; \<open>bytes.HasPrefix\<close> compares
  the leading bytes.
\<close>

fun IndexByte :: "string \<Rightarrow> char \<Rightarrow> int" where
  "IndexByte [] c = -1"
| "IndexByte (x # xs) c =
     (if x = c then 0
      else (let n = IndexByte xs c in if n < 0 then -1 else n + 1))"

definition HasPrefix :: "string \<Rightarrow> string \<Rightarrow> bool" where
  "HasPrefix s p = (length p \<le> length s \<and> take (length p) s = p)"

fun Index :: "string \<Rightarrow> string \<Rightarrow> int" where
  "Index [] sep = (if sep = [] then 0 else -1)"
| "Index (x # xs) sep =
     (if HasPrefix (x # xs) sep then 0
      else (let n = Index xs sep in if n < 0 then -1 else n + 1))"

section \<open>Path rewriting: stripLeadingSlashes\<close>

text \<open>
  A Go panic is the left summand of the result. The loop runs while
  \<open>stripSlashes > 0\<close> and the path is not empty; \<open>break\<close> leaves it with the
  empty path.
\<close>

function stripLeadingSlashes :: "string \<Rightarrow> int \<Rightarrow> string + string" where
  "stripLeadingSlashes path stripSlashes =
     (if stripSlashes > 0 \<and> length path > 0 then
        (if hd path \<noteq> CHR ''/'' then Inl ''BUG: path must start with slash''
         else if IndexByte (tl path) CHR ''/'' < 0 then Inr []
         else stripLeadingSlashes (drop (nat (IndexByte (tl path) CHR ''/'' + 1)) path)
                (stripSlashes - 1))
      else Inr path)"
  by pat_completeness auto
termination
  by (relation "measure (\<lambda>(path, stripSlashes). nat stripSlashes)") auto

declare stripLeadingSlashes.simps [simp del]

text \<open>
  The claim's reading of the result: a path that starts with a slash is a sequence of
  slash-led segments, and stripping removes the first \<open>stripSlashes\<close> of them.
\<close>

function segments :: "string \<Rightarrow> string list" where
  "segments [] = []"
| "segments (c # cs) =
     (c # takeWhile (\<lambda>x. x \<noteq> CHR ''/'') cs) # segments (dropWhile (\<lambda>x. x \<noteq> CHR ''/'') cs)"
  by pat_completeness auto
termination
  by (relation "measure length") (auto simp: length_dropWhile_le less_Suc_eq_le)

definition stripSegments :: "string \<Rightarrow> int \<Rightarrow> string" where
  "stripSegments path stripSlashes = concat (drop (nat stripSlashes) (segments path))"

section \<open>Byte ranges: ParseByteRange\<close>

text \<open>
  Go's \<open>int\<close> is modelled as \<open>int\<close>. Content lengths and parsed numbers are
  non-negative machine integers, so the only arithmetic of \<open>ParseByteRange\<close>, the
  differences \<open>contentLength - v\<close> and \<open>contentLength - 1\<close>, stays inside the
  machine range and no wrap-around has to be written out.
\<close>

datatype uintError = errEmptyInt | errUnexpectedChar | errTooLongInt

datatype rangeError =
    errUnsupportedRangeUnits
  | errMissingByteRange
  | errMissingEndPosition
  | errParseUint uintError
  | errStartExceedsLength
  | errStartExceedsEnd

definition strBytes :: string where
  \<comment> \<open>Modelled from the spec: the constant \<open>strBytes\<close> is declared outside src/; the
      spec gives the header as \<open>Range: bytes=...\<close>.\<close>
  "strBytes = ''bytes''"

definition maxInt :: int where
  "maxInt = 2 ^ 63 - 1"

definition isDigit :: "char \<Rightarrow> bool" where
  "isDigit c = (of_char c \<ge> (48::nat) \<and> of_char c \<le> (57::nat))"

definition digitVal :: "char \<Rightarrow> int" where
  "digitVal c = int (of_char c) - 48"

definition ParseUint :: "string \<Rightarrow> uintError + int" where
  \<comment> \<open>Modelled from the spec: \<open>ParseUint\<close> is declared outside src/. The spec's Range
      examples read a non-empty string of decimal digits as the number it writes; anything
      else, or a number beyond the machine range, is an error.\<close>
  "ParseUint buf =
     (if buf = [] then Inl errEmptyInt
      else if \<not> list_all isDigit buf then Inl errUnexpectedChar
      else (let v = foldl (\<lambda>v c. 10 * v + digitVal c) 0 buf
            in if v > maxInt then Inl errTooLongInt else Inr v))"

text \<open>
  \<open>ParseByteRange\<close> takes the number parser as a parameter \<open>pu\<close>, since its source is
  not part of the repository's files: the general statements hold for every parser, the
  concrete examples for the decimal one above.
\<close>

definition ParseByteRange ::
  "(string \<Rightarrow> uintError + int) \<Rightarrow> string \<Rightarrow> int \<Rightarrow> rangeError + (int \<times> int)" where
  "ParseByteRange pu byteRange contentLength =
     (if \<not> HasPrefix byteRange strBytes then Inl errUnsupportedRangeUnits
      else
        (let b = drop (length strBytes) byteRange in
         if length b = 0 \<or> hd b \<noteq> CHR ''='' then Inl errMissingByteRange
         else
           (let b = tl b; n = IndexByte b CHR ''-'' in
            if n < 0 then Inl errMissingEndPosition
            else if n = 0 then
              (case pu (drop (nat (n + 1)) b) of
                 Inl err \<Rightarrow> Inl (errParseUint err)
               | Inr v \<Rightarrow>
                   (let startPos = contentLength - v;
                        startPos = (if startPos < 0 then 0 else startPos)
                    in Inr (startPos, contentLength - 1)))
            else
              (case pu (take (nat n) b) of
                 Inl err \<Rightarrow> Inl (errParseUint err)
               | Inr startPos \<Rightarrow>
                   if startPos \<ge> contentLength then Inl errStartExceedsLength
                   else
                     (let b = drop (nat (n + 1)) b in
                      if length b = 0 then Inr (startPos, contentLength - 1)
                      else
                        (case pu b of
                           Inl err \<Rightarrow> Inl (errParseUint err)
                         | Inr endPos \<Rightarrow>
                             (let endPos = (if endPos \<ge> contentLength
                                            then contentLength - 1 else endPos)
                              in if endPos < startPos then Inl errStartExceedsEnd
                                 else Inr (startPos, endPos))))))))"

section \<open>The request as the handler reads it\<close>

text \<open>
  \<open>RequestCtx\<close> holds what \<open>handleRequest\<close> reads from the request context through
  accessors whose source is not part of the repository's files: the path, the value of
  the \<open>Range\<close> header (empty when the header is absent), the three
  \<open>HasAcceptEncodingBytes\<close> answers, the parsed \<open>If-Modified-Since\<close> header
  (\<open>None\<close> when absent or unparsable), whether the method is \<open>HEAD\<close>, and the content
  type the response already carries.
\<close>

record RequestCtx =
  Path :: string
  peekRange :: string
  HasAcceptEncodingBr :: bool
  HasAcceptEncodingZstd :: bool
  HasAcceptEncodingGzip :: bool
  peekIfModifiedSince :: "int option"
  IsHead :: bool
  ContentType :: string

text \<open>A path rewriter returns the new path, or panics (left summand).\<close>

type_synonym PathRewriteFunc = "RequestCtx \<Rightarrow> string + string"

definition NewPathSlashesStripper :: "int \<Rightarrow> PathRewriteFunc" where
  "NewPathSlashesStripper slashesCount = (\<lambda>ctx. stripLeadingSlashes (Path ctx) slashesCount)"

definition NewPathPrefixStripper :: "int \<Rightarrow> PathRewriteFunc" where
  "NewPathPrefixStripper prefixSize =
     (\<lambda>ctx. if int (length (Path ctx)) \<ge> prefixSize
            then (if prefixSize < 0 then Inl ''slice bounds out of range''
                  else Inr (drop (nat prefixSize) (Path ctx)))
            else Inr (Path ctx))"

section \<open>File entries and the store\<close>

text \<open>
  The cache maps, the pending list and the readers hold pointers to \<open>fsFile\<close> values
  and mutate \<open>readersCount\<close> through them, so the entries live in a store from
  addresses to records. The Go fields \<open>t\<close> and \<open>f\<close> are named \<open>ff_t\<close> and
  \<open>ff_f\<close>; \<open>ff_f\<close> says whether the handle \<open>f\<close> is non-nil, and the ghost field
  \<open>f_closed\<close> records that \<open>f.Close()\<close> has been called. Times are nanoseconds.
  The pool \<open>bigFiles\<close> of re-opened handles is not modelled: no statement below
  depends on it.
\<close>

type_synonym addr = nat

record fsFile =
  lastModified :: int
  ff_t :: int
  ff_f :: bool
  f_closed :: bool
  filename :: string
  contentType :: string
  dirIndex :: string
  lastModifiedStr :: string
  contentLength :: int
  readersCount :: int
  compressed :: bool

type_synonym store = "addr \<Rightarrow> fsFile"

definition Release :: "store \<Rightarrow> addr \<Rightarrow> store" where
  "Release h ff = (if ff_f (h ff) then h(ff := (h ff)\<lparr>f_closed := True\<rparr>) else h)"

text \<open>
  \<open>readersCount\<close> is a Go \<open>int\<close>, 64 bits wide on the platforms the server is built
  for: \<open>ff.readersCount++\<close> and \<open>ff.readersCount--\<close> wrap around silently, from
  \<open>maxInt\<close> to \<open>minInt\<close> and back. \<open>wrapInt\<close> is that wrap-around, written out on
  the integers.
\<close>

definition minInt :: int where
  "minInt = - (2 ^ 63)"

definition wrapInt :: "int \<Rightarrow> int" where
  "wrapInt x = (x + 2 ^ 63) mod 2 ^ 64 - 2 ^ 63"

text \<open>
  \<open>decReadersCount\<close> runs its body under the cache manager's lock (\<open>WithLock\<close>); an
  operation under the lock is one atomic step of the model.
\<close>

definition decReadersCount :: "store \<Rightarrow> addr \<Rightarrow> store" where
  "decReadersCount h ff =
     (let c = wrapInt (readersCount (h ff) - 1);
          c = (if c < 0 then 0 else c)
      in h(ff := (h ff)\<lparr>readersCount := c\<rparr>))"

section \<open>The in-memory cache manager\<close>

text \<open>
  \<open>CacheKind\<close> is a \<open>uint8\<close>. A Go map is modelled as an association list whose
  order stands for the unspecified iteration order: lookup is \<open>map_of\<close>, assignment
  \<open>AList.update\<close>, \<open>delete\<close> is \<open>AList.delete\<close>. The maps are reference values,
  so writing through the map returned by \<open>getFsCache\<close> writes the manager's field
  (\<open>setFsCache\<close>).
\<close>

type_synonym CacheKind = "8 word"

definition defaultCacheKind :: CacheKind where "defaultCacheKind = 0"
definition brotliCacheKind :: CacheKind where "brotliCacheKind = 1"
definition gzipCacheKind :: CacheKind where "gzipCacheKind = 2"
definition zstdCacheKind :: CacheKind where "zstdCacheKind = 3"

type_synonym fileCache = "(string \<times> addr) list"

record inMemoryCacheManager =
  cache :: fileCache
  cacheBrotli :: fileCache
  cacheGzip :: fileCache
  cacheZstd :: fileCache
  cacheDuration :: int

definition getFsCache :: "inMemoryCacheManager \<Rightarrow> CacheKind \<Rightarrow> fileCache" where
  "getFsCache cm cacheKind =
     (if cacheKind = brotliCacheKind then cacheBrotli cm
      else if cacheKind = gzipCacheKind then cacheGzip cm
      else if cacheKind = zstdCacheKind then cacheZstd cm
      else cache cm)"

definition setFsCache ::
  "inMemoryCacheManager \<Rightarrow> CacheKind \<Rightarrow> fileCache \<Rightarrow> inMemoryCacheManager" where
  "setFsCache cm cacheKind c =
     (if cacheKind = brotliCacheKind then cm\<lparr>cacheBrotli := c\<rparr>
      else if cacheKind = gzipCacheKind then cm\<lparr>cacheGzip := c\<rparr>
      else if cacheKind = zstdCacheKind then cm\<lparr>cacheZstd := c\<rparr>
      else cm\<lparr>cache := c\<rparr>)"

definition incReadersCount :: "store \<Rightarrow> addr \<Rightarrow> store" where
  "incReadersCount h ff =
     h(ff := (h ff)\<lparr>readersCount := wrapInt (readersCount (h ff) + 1)\<rparr>)"

definition GetFileFromCache ::
  "inMemoryCacheManager \<Rightarrow> store \<Rightarrow> CacheKind \<Rightarrow> string \<Rightarrow> addr option \<times> store" where
  "GetFileFromCache cm h cacheKind path =
     (case map_of (getFsCache cm cacheKind) path of
        Some ff \<Rightarrow> (Some ff, incReadersCount h ff)
      | None \<Rightarrow> (None, h))"

definition SetFileToCache ::
  "inMemoryCacheManager \<Rightarrow> store \<Rightarrow> CacheKind \<Rightarrow> string \<Rightarrow> addr
     \<Rightarrow> addr \<times> inMemoryCacheManager \<times> store" where
  "SetFileToCache cm h cacheKind path ff =
     (let fileCache = getFsCache cm cacheKind in
      case map_of fileCache path of
        None \<Rightarrow>
          (ff, setFsCache cm cacheKind (AList.update path ff fileCache), incReadersCount h ff)
      | Some ff1 \<Rightarrow> (ff1, cm, Release (incReadersCount h ff1) ff))"

text \<open>A sequence of puts, each on the state the previous one left.\<close>

fun SetFilesToCache ::
  "inMemoryCacheManager \<Rightarrow> store \<Rightarrow> (CacheKind \<times> string \<times> addr) list
     \<Rightarrow> inMemoryCacheManager \<times> store" where
  "SetFilesToCache cm h [] = (cm, h)"
| "SetFilesToCache cm h ((cacheKind, path, ff) # puts) =
     (case SetFileToCache cm h cacheKind path ff of
        (r, cm', h') \<Rightarrow> SetFilesToCache cm' h' puts)"

text \<open>
  \<open>newCacheManager\<close> builds the in-memory manager with four empty maps; a cache
  duration that is not positive is replaced by \<open>FSHandlerCacheDuration\<close> (ten
  seconds). \<open>zeroFsFile\<close> is the Go zero value of the struct.
\<close>

definition FSHandlerCacheDuration :: int where
  "FSHandlerCacheDuration = 10 * 1000000000"

definition newInMemoryCacheManager :: "int \<Rightarrow> inMemoryCacheManager" where
  "newInMemoryCacheManager d =
     \<lparr>cache = [], cacheBrotli = [], cacheGzip = [], cacheZstd = [],
      cacheDuration = (if d \<le> 0 then FSHandlerCacheDuration else d)\<rparr>"

definition zeroFsFile :: fsFile where
  "zeroFsFile =
     \<lparr>lastModified = 0, ff_t = 0, ff_f = False, f_closed = False, filename = [],
      contentType = [], dirIndex = [], lastModifiedStr = [], contentLength = 0,
      readersCount = 0, compressed = False\<rparr>"

subsection \<open>The sweep\<close>

text \<open>
  \<open>time.Time.Sub\<close> returns a \<open>Duration\<close>, a signed 64-bit count of nanoseconds,
  and saturates at its bounds.
\<close>

definition minDuration :: int where "minDuration = - (2 ^ 63)"
definition maxDuration :: int where "maxDuration = 2 ^ 63 - 1"

definition Sub :: "int \<Rightarrow> int \<Rightarrow> int" where
  "Sub t u =
     (let d = t - u in
      if d < minDuration then minDuration else if d > maxDuration then maxDuration else d)"

text \<open>
  The loop of \<open>cleanCacheNolock\<close> ranges over the entries of the map and deletes
  from the map as it goes: \<open>es\<close> are the entries still to visit, \<open>c\<close> is the map.
\<close>

fun cleanLoop ::
  "store \<Rightarrow> int \<Rightarrow> int \<Rightarrow> fileCache \<Rightarrow> fileCache \<Rightarrow> addr list \<Rightarrow> addr list
     \<Rightarrow> fileCache \<times> addr list \<times> addr list" where
  "cleanLoop h now d [] c pendingFiles filesToRelease = (c, pendingFiles, filesToRelease)"
| "cleanLoop h now d ((k, ff) # es) c pendingFiles filesToRelease =
     (if Sub now (ff_t (h ff)) > d then
        (if readersCount (h ff) > 0
         then cleanLoop h now d es (AList.delete k c) (pendingFiles @ [ff]) filesToRelease
         else cleanLoop h now d es (AList.delete k c) pendingFiles (filesToRelease @ [ff]))
      else cleanLoop h now d es c pendingFiles filesToRelease)"

definition cleanCacheNolock ::
  "store \<Rightarrow> int \<Rightarrow> fileCache \<Rightarrow> addr list \<Rightarrow> addr list \<Rightarrow> int
     \<Rightarrow> fileCache \<times> addr list \<times> addr list" where
  "cleanCacheNolock h now c pendingFiles filesToRelease d =
     cleanLoop h now d c c pendingFiles filesToRelease"

fun splitPending :: "store \<Rightarrow> addr list \<Rightarrow> addr list \<Rightarrow> addr list \<Rightarrow> addr list \<times> addr list" where
  "splitPending h [] remainingFiles filesToRelease = (remainingFiles, filesToRelease)"
| "splitPending h (ff # fs) remainingFiles filesToRelease =
     (if readersCount (h ff) > 0
      then splitPending h fs (remainingFiles @ [ff]) filesToRelease
      else splitPending h fs remainingFiles (filesToRelease @ [ff]))"

text \<open>
  \<open>cleanCacheLocked\<close> is the part of \<open>cleanCache\<close> under the lock; it returns the
  manager, the new pending list and the files to release. Each call of
  \<open>cleanCacheNolock\<close> reads the clock itself: \<open>now0\<close> to \<open>now3\<close> are the four
  readings.
\<close>

definition cleanCacheLocked ::
  "inMemoryCacheManager \<Rightarrow> store \<Rightarrow> int \<Rightarrow> int \<Rightarrow> int \<Rightarrow> int \<Rightarrow> addr list
     \<Rightarrow> inMemoryCacheManager \<times> addr list \<times> addr list" where
  "cleanCacheLocked cm h now0 now1 now2 now3 pendingFiles =
     (case splitPending h pendingFiles [] [] of (p, r) \<Rightarrow>
      case cleanCacheNolock h now0 (cache cm) p r (cacheDuration cm) of (c0, p0, r0) \<Rightarrow>
      case cleanCacheNolock h now1 (cacheBrotli cm) p0 r0 (cacheDuration cm) of (c1, p1, r1) \<Rightarrow>
      case cleanCacheNolock h now2 (cacheGzip cm) p1 r1 (cacheDuration cm) of (c2, p2, r2) \<Rightarrow>
      case cleanCacheNolock h now3 (cacheZstd cm) p2 r2 (cacheDuration cm) of (c3, p3, r3) \<Rightarrow>
        (cm\<lparr>cache := c0, cacheBrotli := c1, cacheGzip := c2, cacheZstd := c3\<rparr>, p3, r3))"

definition cleanCache ::
  "inMemoryCacheManager \<Rightarrow> store \<Rightarrow> int \<Rightarrow> int \<Rightarrow> int \<Rightarrow> int \<Rightarrow> addr list
     \<Rightarrow> addr list \<times> inMemoryCacheManager \<times> store" where
  "cleanCache cm h now0 now1 now2 now3 pendingFiles =
     (case cleanCacheLocked cm h now0 now1 now2 now3 pendingFiles of
        (cm', pendingFiles', filesToRelease) \<Rightarrow>
          (pendingFiles', cm', foldl Release h filesToRelease))"

text \<open>An entry is stale at a clock reading when it is older than the cache duration.\<close>

definition isStale :: "store \<Rightarrow> int \<Rightarrow> int \<Rightarrow> addr \<Rightarrow> bool" where
  "isStale h now d ff = (Sub now (ff_t (h ff)) > d)"

subsection \<open>Sequences of cache operations\<close>

datatype cacheOp =
    opGetFileFromCache CacheKind string
  | opSetFileToCache CacheKind string addr
  | opDecReadersCount addr

fun cacheStep :: "inMemoryCacheManager \<times> store \<Rightarrow> cacheOp \<Rightarrow> inMemoryCacheManager \<times> store" where
  "cacheStep (cm, h) (opGetFileFromCache cacheKind path) =
     (cm, snd (GetFileFromCache cm h cacheKind path))"
| "cacheStep (cm, h) (opSetFileToCache cacheKind path ff) =
     snd (SetFileToCache cm h cacheKind path ff)"
| "cacheStep (cm, h) (opDecReadersCount ff) = (cm, decReadersCount h ff)"

definition cacheRun ::
  "inMemoryCacheManager \<times> store \<Rightarrow> cacheOp list \<Rightarrow> inMemoryCacheManager \<times> store" where
  "cacheRun s ops = foldl cacheStep s ops"

section \<open>The filesystem and the rest of the package, as the handler sees them\<close>

text \<open>
  Errors are values. \<open>errWrap\<close> is \<open>fmt.Errorf\<close> with \<open>%w\<close>, \<open>errNew\<close> an error
  made without wrapping; \<open>errorsIs\<close> is \<open>errors.Is\<close>, which compares and then
  unwraps.
\<close>

datatype fsError =
    ErrNotExist
  | ErrInvalid
  | ErrPermission
  | ErrOther
  | errDirIndexRequired
  | errNoCreatePermission
  | errNew string
  | errWrap string fsError

fun errorsIs :: "fsError \<Rightarrow> fsError \<Rightarrow> bool" where
  "errorsIs (errWrap m e) target = (errWrap m e = target \<or> errorsIs e target)"
| "errorsIs e target = (e = target)"

record FileInfo =
  Name :: string
  Size :: int
  ModTime :: int
  IsDir :: bool

text \<open>
  \<open>fsEnv\<close> holds the answers of what the handler calls and the repository's files do
  not define or the model does not follow further: the filesystem (\<open>Open\<close>, the
  \<open>Stat\<close> of an open file, \<open>fs.Stat\<close>; an open file is a number), the functions
  \<open>compressAndOpenFSFile\<close>, \<open>newFSFile\<close> and \<open>createDirIndex\<close> (each answers
  with an error or the address of the entry it built), whether the entry's pool of big-file
  readers holds a reader, and the errors of \<open>Seek\<close> in \<open>UpdateByteRange\<close> and in
  \<open>Close\<close> of a big-file reader, and whether the pooled small-file reader is in the
  state \<open>smallFileReader\<close> refuses.
\<close>

record fsEnv =
  fsOpen :: "string \<Rightarrow> fsError + nat"
  fStat :: "nat \<Rightarrow> fsError + FileInfo"
  fsStat :: "string \<Rightarrow> fsError + FileInfo"
  compressAndOpenFSFile_result :: "string \<Rightarrow> string \<Rightarrow> fsError + addr"
  newFSFile_result :: "nat \<Rightarrow> FileInfo \<Rightarrow> bool \<Rightarrow> string \<Rightarrow> string \<Rightarrow> fsError + addr"
  createDirIndex_result :: "string \<Rightarrow> bool \<Rightarrow> string \<Rightarrow> fsError + addr"
  bigFilesPooled :: "addr \<Rightarrow> bool"
  seekError :: "addr \<Rightarrow> int \<Rightarrow> fsError option"
  closeError :: "addr \<Rightarrow> fsError option"
  smallReaderPoolBug :: bool

datatype reader = bigFileReader addr | fsSmallFileReader addr

datatype logMsg =
    logNilByte int string
  | logSlashDotDot int string
  | logNoCreatePermission string
  | logCannotOpenDirIndex string fsError
  | logCannotOpenFile string fsError
  | logCannotObtainReader string fsError
  | logCannotParseByteRange string string rangeError
  | logCannotSeekByteRange string string fsError
  | logCannotCloseReader fsError

datatype headerKey = strAcceptRanges | strLastModified | strAcceptEncoding

datatype encodingName = strBr | strGzip | strZstd

text \<open>
  What the handler does to the response and to files is a list of effects, in the order
  of the calls.
\<close>

datatype effect =
    Logf logMsg
  | ctxError string nat
  | RedirectBytes string nat
  | SetStatusCode nat
  | callPathNotFound
  | NotModified
  | SetContentEncodingBytes encodingName
  | addVaryBytes headerKey
  | setNonSpecial headerKey string
  | SetContentRange int int int
  | SetBodyStream reader int
  | ResetBody
  | SetSkipBody bool
  | SetContentLength int
  | SetNoDefaultContentType bool
  | SetContentType string
  | callOpen string
  | callClose nat
  | callRemove string
  | callCompressAndOpenFSFile string string
  | callNewFSFile nat bool string string
  | callCreateDirIndex string bool string
  | callReaderClose reader

definition StatusOK :: nat where
  \<comment> \<open>Modelled from the spec: the status constants are declared outside src/; the spec
      lists the codes 200, 206, 302, 304, 400, 403, 404, 416 and 500.\<close>
  "StatusOK = 200"

definition StatusPartialContent :: nat where "StatusPartialContent = 206"
definition StatusFound :: nat where "StatusFound = 302"
definition StatusBadRequest :: nat where "StatusBadRequest = 400"
definition StatusForbidden :: nat where "StatusForbidden = 403"
definition StatusNotFound :: nat where "StatusNotFound = 404"
definition StatusRequestedRangeNotSatisfiable :: nat where
  "StatusRequestedRangeNotSatisfiable = 416"
definition StatusInternalServerError :: nat where "StatusInternalServerError = 500"

definition strSlashDotDotSlash :: string where
  \<comment> \<open>Modelled from the spec: the constant is declared outside src/; the spec names the
      parent-directory traversal segment \<open>/../\<close>.\<close>
  "strSlashDotDotSlash = ''/../''"

definition IfModifiedSince :: "RequestCtx \<Rightarrow> int \<Rightarrow> bool" where
  \<comment> \<open>Modelled from the spec: \<open>RequestCtx.IfModifiedSince\<close> is declared outside src/.
      The spec: if the request's If-Modified-Since is not older than the entry's
      last-modified time, respond 304. So the answer is False exactly when the header is
      present and not older than \<open>lastModified\<close>.\<close>
  "IfModifiedSince ctx lastModified' =
     (case peekIfModifiedSince ctx of
        None \<Rightarrow> True
      | Some ifMod \<Rightarrow> ifMod < lastModified')"

section \<open>The handler\<close>

text \<open>
  \<open>isOsFS\<close> says whether the handler's filesystem is the \<open>osFS\<close> of the package,
  \<open>pathNotFound\<close> whether the override handler is set. \<open>compressedFileSuffixes\<close>
  is the map of suffixes; a missing key reads as the empty string.
\<close>

record fsHandler =
  pathRewrite :: "PathRewriteFunc option"
  pathNotFound :: bool
  isOsFS :: bool
  root :: string
  compressRoot :: string
  indexNames :: "string list"
  generateIndexPages :: bool
  compress :: bool
  compressBrotli :: bool
  compressZstd :: bool
  acceptByteRange :: bool
  compressedFileSuffixes :: "string \<Rightarrow> string"

text \<open>
  The interface \<open>cacheManager\<close> has two implementations; the no-op one stores
  nothing, finds nothing and returns every candidate as it is.
\<close>

datatype cacheManager = noopCacheManager | inMemory inMemoryCacheManager

definition cacheManager_GetFileFromCache ::
  "cacheManager \<Rightarrow> store \<Rightarrow> CacheKind \<Rightarrow> string \<Rightarrow> addr option \<times> store" where
  "cacheManager_GetFileFromCache cmgr h cacheKind path =
     (case cmgr of
        noopCacheManager \<Rightarrow> (None, h)
      | inMemory cm \<Rightarrow> GetFileFromCache cm h cacheKind path)"

definition cacheManager_SetFileToCache ::
  "cacheManager \<Rightarrow> store \<Rightarrow> CacheKind \<Rightarrow> string \<Rightarrow> addr \<Rightarrow> addr \<times> cacheManager \<times> store" where
  "cacheManager_SetFileToCache cmgr h cacheKind path ff =
     (case cmgr of
        noopCacheManager \<Rightarrow> (ff, noopCacheManager, h)
      | inMemory cm \<Rightarrow>
          (case SetFileToCache cm h cacheKind path ff of
             (ff', cm', h') \<Rightarrow> (ff', inMemory cm', h')))"

subsection \<open>Readers\<close>

definition maxSmallFileSize :: int where
  "maxSmallFileSize = 2 * 4096"

definition isBig :: "fsHandler \<Rightarrow> store \<Rightarrow> addr \<Rightarrow> bool" where
  "isBig hdl h ff =
     (if \<not> isOsFS hdl then ff_f (h ff)
      else contentLength (h ff) > maxSmallFileSize \<and> length (dirIndex (h ff)) = 0)"

definition smallFileReader :: "fsEnv \<Rightarrow> addr \<Rightarrow> fsError + reader" where
  "smallFileReader env ff =
     (if smallReaderPoolBug env
      then Inl (errNew ''bug: fsSmallFileReader with non-nil startPos found in the pool'')
      else Inr (fsSmallFileReader ff))"

definition bigFileReader_new :: "fsEnv \<Rightarrow> store \<Rightarrow> addr \<Rightarrow> fsError + reader" where
  "bigFileReader_new env h ff =
     (if \<not> ff_f (h ff) then Inl (errNew ''bug: ff.f must be non-nil in bigFileReader'')
      else if bigFilesPooled env ff then Inr (bigFileReader ff)
      else (case fsOpen env (filename (h ff)) of
              Inl err \<Rightarrow> Inl (errWrap ''cannot open already opened file'' err)
            | Inr f \<Rightarrow> Inr (bigFileReader ff)))"

definition NewReader ::
  "fsHandler \<Rightarrow> fsEnv \<Rightarrow> store \<Rightarrow> addr \<Rightarrow> (fsError + reader) \<times> store" where
  "NewReader hdl env h ff =
     (if isBig hdl h ff then
        (case bigFileReader_new env h ff of
           Inl err \<Rightarrow> (Inl err, decReadersCount h ff)
         | Inr r \<Rightarrow> (Inr r, h))
      else (smallFileReader env ff, h))"

definition UpdateByteRange :: "fsEnv \<Rightarrow> reader \<Rightarrow> int \<Rightarrow> int \<Rightarrow> fsError option" where
  "UpdateByteRange env r startPos endPos =
     (case r of
        fsSmallFileReader ff \<Rightarrow> None
      | bigFileReader ff \<Rightarrow> seekError env ff startPos)"

text \<open>Closing a reader of either kind decrements the reader count of its entry.\<close>

definition Close :: "fsEnv \<Rightarrow> store \<Rightarrow> reader \<Rightarrow> fsError option \<times> store" where
  "Close env h r =
     (case r of
        fsSmallFileReader ff \<Rightarrow> (None, decReadersCount h ff)
      | bigFileReader ff \<Rightarrow> (closeError env ff, decReadersCount h ff))"

subsection \<open>Opening files\<close>

text \<open>
  \<open>filepath.FromSlash\<close> is the identity where the path separator is the slash, which
  the model assumes. \<open>Second\<close> is \<open>time.Second\<close> in nanoseconds.
\<close>

definition pathToFilePath :: "fsHandler \<Rightarrow> string \<Rightarrow> string" where
  "pathToFilePath hdl path =
     (if \<not> isOsFS hdl then (if length path < 1 then path else drop 1 path)
      else root hdl @ path)"

definition Second :: int where
  "Second = 1000000000"

text \<open>
  \<open>openFSFile\<close> returns its effects on files and its result. The two functions it
  ends in, \<open>compressAndOpenFSFile\<close> and \<open>newFSFile\<close>, are calls whose answers the
  environment gives.
\<close>

definition openFSFile ::
  "fsHandler \<Rightarrow> fsEnv \<Rightarrow> string \<Rightarrow> bool \<Rightarrow> string \<Rightarrow> effect list \<times> (fsError + addr)" where
  "openFSFile hdl env filePathOriginal mustCompress fileEncoding =
     (let filePath = (if mustCompress
                      then filePathOriginal @ compressedFileSuffixes hdl fileEncoding
                      else filePathOriginal)
      in case fsOpen env filePath of
           Inl err \<Rightarrow>
             if mustCompress \<and> errorsIs err ErrNotExist then
               ([callOpen filePath, callCompressAndOpenFSFile filePathOriginal fileEncoding],
                compressAndOpenFSFile_result env filePathOriginal fileEncoding)
             else if filePath = [] \<and> (errorsIs err ErrNotExist \<or> errorsIs err ErrInvalid) then
               ([callOpen filePath], Inl errDirIndexRequired)
             else ([callOpen filePath], Inl err)
         | Inr f \<Rightarrow>
             (case fStat env f of
                Inl err \<Rightarrow>
                  ([callOpen filePath, callClose f],
                   Inl (errWrap ''cannot obtain info for file'' err))
              | Inr fileInfo \<Rightarrow>
                  if IsDir fileInfo then
                    ([callOpen filePath, callClose f],
                     if mustCompress
                     then Inl (errNew ''directory with unexpected suffix found'')
                     else Inl errDirIndexRequired)
                  else if mustCompress then
                    (case fsStat env filePathOriginal of
                       Inl err \<Rightarrow>
                         ([callOpen filePath, callClose f],
                          Inl (errWrap ''cannot obtain info for original file'' err))
                     | Inr fileInfoOriginal \<Rightarrow>
                         if Sub (ModTime fileInfoOriginal) (ModTime fileInfo) \<ge> Second then
                           ([callOpen filePath, callClose f, callRemove filePath,
                             callCompressAndOpenFSFile filePathOriginal fileEncoding],
                            compressAndOpenFSFile_result env filePathOriginal fileEncoding)
                         else
                           ([callOpen filePath,
                             callNewFSFile f mustCompress filePath fileEncoding],
                            newFSFile_result env f fileInfo mustCompress filePath fileEncoding))
                  else
                    ([callOpen filePath, callNewFSFile f mustCompress filePath fileEncoding],
                     newFSFile_result env f fileInfo mustCompress filePath fileEncoding)))"

fun openIndexFile_loop ::
  "fsHandler \<Rightarrow> fsEnv \<Rightarrow> string \<Rightarrow> bool \<Rightarrow> string \<Rightarrow> string list
     \<Rightarrow> effect list \<times> (fsError + addr)" where
  "openIndexFile_loop hdl env dirPath mustCompress fileEncoding [] =
     (if \<not> generateIndexPages hdl
      then ([], Inl (errNew ''cannot access directory without index page''))
      else ([callCreateDirIndex dirPath mustCompress fileEncoding],
            createDirIndex_result env dirPath mustCompress fileEncoding))"
| "openIndexFile_loop hdl env dirPath mustCompress fileEncoding (indexName # rest) =
     (let indexFilePath = (if dirPath \<noteq> [] then dirPath @ ''/'' @ indexName else indexName)
      in case openFSFile hdl env indexFilePath mustCompress fileEncoding of
           (es, Inr ff) \<Rightarrow> (es, Inr ff)
         | (es, Inl err) \<Rightarrow>
             if mustCompress \<and> err = errNoCreatePermission then
               (case openFSFile hdl env indexFilePath False fileEncoding of
                  (es2, res) \<Rightarrow> (es @ [Logf (logNoCreatePermission indexFilePath)] @ es2, res))
             else if \<not> errorsIs err ErrNotExist then
               (es, Inl (errWrap ''cannot open file'' err))
             else
               (case openIndexFile_loop hdl env dirPath mustCompress fileEncoding rest of
                  (es2, res) \<Rightarrow> (es @ es2, res)))"

definition openIndexFile ::
  "fsHandler \<Rightarrow> fsEnv \<Rightarrow> string \<Rightarrow> bool \<Rightarrow> string \<Rightarrow> effect list \<times> (fsError + addr)" where
  "openIndexFile hdl env dirPath mustCompress fileEncoding =
     openIndexFile_loop hdl env dirPath mustCompress fileEncoding (indexNames hdl)"

subsection \<open>handleRequest\<close>

text \<open>
  \<open>handleRequest\<close> is one Go function; the model follows it in the order of its
  source, in named parts: the path and its two checks, the negotiation of the encoding,
  the cache lookup with the open on a miss, the conditional check with the reader and
  the byte range, and the emission of the body. A part either returns from the handler
  (\<open>Returned\<close>, with the effects so far and the state) or goes on (\<open>Proceed\<close>).
\<close>

datatype 'a stage = Returned "effect list" cacheManager store | Proceed 'a

definition rewrittenPath :: "fsHandler \<Rightarrow> RequestCtx \<Rightarrow> string + string" where
  "rewrittenPath hdl ctx =
     (case pathRewrite hdl of
        Some rewrite \<Rightarrow> rewrite ctx
      | None \<Rightarrow> Inr (Path ctx))"

definition checkPath :: "fsHandler \<Rightarrow> string \<Rightarrow> effect list option" where
  "checkPath hdl path =
     (let n = IndexByte path (CHR 0x00) in
      if n \<ge> 0 then
        Some [Logf (logNilByte n path), ctxError ''Are you a hacker?'' StatusBadRequest]
      else if pathRewrite hdl \<noteq> None then
        (let n = Index path strSlashDotDotSlash in
         if n \<ge> 0 then
           Some [Logf (logSlashDotDot n path),
                 ctxError ''Internal Server Error'' StatusInternalServerError]
         else None)
      else None)"

definition negotiateEncoding :: "fsHandler \<Rightarrow> RequestCtx \<Rightarrow> bool \<times> CacheKind \<times> string" where
  "negotiateEncoding hdl ctx =
     (let byteRange = peekRange ctx in
      if length byteRange = 0 \<and> compress hdl then
        (if compressBrotli hdl \<and> HasAcceptEncodingBr ctx then (True, brotliCacheKind, ''br'')
         else if compressZstd hdl \<and> HasAcceptEncodingZstd ctx then (True, zstdCacheKind, ''zstd'')
         else if HasAcceptEncodingGzip ctx then (True, gzipCacheKind, ''gzip'')
         else (False, defaultCacheKind, []))
      else (False, defaultCacheKind, []))"

definition acquireFile ::
  "fsHandler \<Rightarrow> fsEnv \<Rightarrow> string \<Rightarrow> bool \<times> CacheKind \<times> string \<Rightarrow> cacheManager \<Rightarrow> store
     \<Rightarrow> (effect list \<times> addr \<times> cacheManager \<times> store) stage" where
  "acquireFile hdl env path negotiated cmgr h =
     (case negotiated of (mustCompress, fileCacheKind, fileEncoding) \<Rightarrow>
      let hasTrailingSlash = (length path > 0 \<and> last path = CHR ''/'');
          originalPathStr = path;
          pathStr = (if hasTrailingSlash then butlast originalPathStr else originalPathStr)
      in case cacheManager_GetFileFromCache cmgr h fileCacheKind originalPathStr of
           (Some ff, h1) \<Rightarrow> Proceed ([], ff, cmgr, h1)
         | (None, h1) \<Rightarrow>
             (let filePath = pathToFilePath hdl pathStr in
              case openFSFile hdl env filePath mustCompress fileEncoding of (es1, res1) \<Rightarrow>
              case (if mustCompress \<and> res1 = Inl errNoCreatePermission
                    then (case openFSFile hdl env filePath False fileEncoding of
                            (es, res) \<Rightarrow>
                              (es1 @ [Logf (logNoCreatePermission filePath)] @ es, False, res))
                    else (es1, mustCompress, res1)) of (es2, mustCompress2, res2) \<Rightarrow>
              (case res2 of
                 Inl err \<Rightarrow>
                   if errorsIs err errDirIndexRequired then
                     (if \<not> hasTrailingSlash
                      then Returned (es2 @ [RedirectBytes (path @ ''/'') StatusFound]) cmgr h1
                      else
                        (case openIndexFile hdl env filePath mustCompress2 fileEncoding of
                           (es3, Inl err3) \<Rightarrow>
                             Returned (es2 @ es3 @
                               [Logf (logCannotOpenDirIndex filePath err3),
                                ctxError ''Directory index is forbidden'' StatusForbidden])
                               cmgr h1
                         | (es3, Inr ff) \<Rightarrow>
                             (case cacheManager_SetFileToCache cmgr h1 fileCacheKind
                                     originalPathStr ff of
                                (ff', cmgr', h2) \<Rightarrow> Proceed (es2 @ es3, ff', cmgr', h2))))
                   else
                     Returned (es2 @ [Logf (logCannotOpenFile filePath err)] @
                       (if \<not> pathNotFound hdl
                        then [ctxError ''Cannot open requested path'' StatusNotFound]
                        else [SetStatusCode StatusNotFound, callPathNotFound])) cmgr h1
               | Inr ff \<Rightarrow>
                   (case cacheManager_SetFileToCache cmgr h1 fileCacheKind originalPathStr ff of
                      (ff', cmgr', h2) \<Rightarrow> Proceed (es2, ff', cmgr', h2)))))"

definition prepareBody ::
  "fsHandler \<Rightarrow> fsEnv \<Rightarrow> RequestCtx \<Rightarrow> string \<Rightarrow> string
     \<Rightarrow> effect list \<times> addr \<times> cacheManager \<times> store
     \<Rightarrow> (effect list \<times> addr \<times> reader \<times> int \<times> nat \<times> cacheManager \<times> store) stage" where
  "prepareBody hdl env ctx path fileEncoding acquired =
     (case acquired of (es, ff, cmgr, h) \<Rightarrow>
      if \<not> IfModifiedSince ctx (lastModified (h ff)) then
        Returned (es @ [NotModified]) cmgr (decReadersCount h ff)
      else
        (case NewReader hdl env h ff of
           (Inl err, h1) \<Rightarrow>
             Returned (es @ [Logf (logCannotObtainReader path err),
               ctxError ''Internal Server Error'' StatusInternalServerError]) cmgr h1
         | (Inr r, h1) \<Rightarrow>
             (let es1 = es @
                    (if compressed (h1 ff) then
                       (if fileEncoding = ''br''
                        then [SetContentEncodingBytes strBr, addVaryBytes strAcceptEncoding]
                        else if fileEncoding = ''gzip''
                        then [SetContentEncodingBytes strGzip, addVaryBytes strAcceptEncoding]
                        else if fileEncoding = ''zstd''
                        then [SetContentEncodingBytes strZstd, addVaryBytes strAcceptEncoding]
                        else [])
                     else []);
                  byteRange = peekRange ctx;
                  statusCode = StatusOK;
                  contentLength0 = contentLength (h1 ff)
              in if acceptByteRange hdl then
                   (let es2 = es1 @ [setNonSpecial strAcceptRanges strBytes] in
                    if length byteRange > 0 then
                      (case ParseByteRange ParseUint byteRange contentLength0 of
                         Inl err \<Rightarrow>
                           (case Close env h1 r of
                              (closed, h2) \<Rightarrow>
                                Returned (es2 @ [callReaderClose r,
                                  Logf (logCannotParseByteRange byteRange path err),
                                  ctxError ''Range Not Satisfiable''
                                    StatusRequestedRangeNotSatisfiable]) cmgr h2)
                       | Inr (startPos, endPos) \<Rightarrow>
                           (case UpdateByteRange env r startPos endPos of
                              Some err \<Rightarrow>
                                (case Close env h1 r of
                                   (closed, h2) \<Rightarrow>
                                     Returned (es2 @ [callReaderClose r,
                                       Logf (logCannotSeekByteRange byteRange path err),
                                       ctxError ''Internal Server Error''
                                         StatusInternalServerError]) cmgr h2)
                            | None \<Rightarrow>
                                Proceed (es2 @ [SetContentRange startPos endPos contentLength0],
                                  ff, r, endPos - startPos + 1, StatusPartialContent, cmgr, h1)))
                    else Proceed (es2, ff, r, contentLength0, statusCode, cmgr, h1))
                 else Proceed (es1, ff, r, contentLength0, statusCode, cmgr, h1))))"

definition emit ::
  "fsEnv \<Rightarrow> RequestCtx
     \<Rightarrow> effect list \<times> addr \<times> reader \<times> int \<times> nat \<times> cacheManager \<times> store
     \<Rightarrow> effect list \<times> cacheManager \<times> store" where
  "emit env ctx prepared =
     (case prepared of (es, ff, r, contentLength0, statusCode, cmgr, h) \<Rightarrow>
      let es1 = es @ [setNonSpecial strLastModified (lastModifiedStr (h ff))];
          rest = [SetNoDefaultContentType True] @
                 (if length (ContentType ctx) = 0 then [SetContentType (contentType (h ff))]
                  else []) @
                 [SetStatusCode statusCode]
      in if \<not> IsHead ctx then (es1 @ [SetBodyStream r contentLength0] @ rest, cmgr, h)
         else
           (let es2 = es1 @ [ResetBody, SetSkipBody True, SetContentLength contentLength0,
                             callReaderClose r]
            in case Close env h r of
                 (Some err, h2) \<Rightarrow>
                   (es2 @ [Logf (logCannotCloseReader err),
                      ctxError ''Internal Server Error'' StatusInternalServerError], cmgr, h2)
               | (None, h2) \<Rightarrow> (es2 @ rest, cmgr, h2)))"

text \<open>
  \<open>beforeEmit\<close> is the handler up to the emission; a panic of the path rewriter is the
  left summand.
\<close>

definition beforeEmit ::
  "fsHandler \<Rightarrow> fsEnv \<Rightarrow> RequestCtx \<Rightarrow> cacheManager \<Rightarrow> store
     \<Rightarrow> string + (effect list \<times> addr \<times> reader \<times> int \<times> nat \<times> cacheManager \<times> store) stage" where
  "beforeEmit hdl env ctx cmgr h =
     (case rewrittenPath hdl ctx of
        Inl panic \<Rightarrow> Inl panic
      | Inr path \<Rightarrow>
          Inr (case checkPath hdl path of
                 Some es \<Rightarrow> Returned es cmgr h
               | None \<Rightarrow>
                   (case negotiateEncoding hdl ctx of
                      (mustCompress, fileCacheKind, fileEncoding) \<Rightarrow>
                        (case acquireFile hdl env path (mustCompress, fileCacheKind, fileEncoding)
                                cmgr h of
                           Returned es cmgr' h' \<Rightarrow> Returned es cmgr' h'
                         | Proceed acquired \<Rightarrow>
                             prepareBody hdl env ctx path fileEncoding acquired))))"

definition handleRequest ::
  "fsHandler \<Rightarrow> fsEnv \<Rightarrow> RequestCtx \<Rightarrow> cacheManager \<Rightarrow> store
     \<Rightarrow> string + effect list \<times> cacheManager \<times> store" where
  "handleRequest hdl env ctx cmgr h =
     (case beforeEmit hdl env ctx cmgr h of
        Inl panic \<Rightarrow> Inl panic
      | Inr (Returned es cmgr' h') \<Rightarrow> Inr (es, cmgr', h')
      | Inr (Proceed prepared) \<Rightarrow> Inr (emit env ctx prepared))"

subsection \<open>Handlers the package builds, and plain requests\<close>

text \<open>
  \<open>FSCompressedFileSuffixes\<close> is the package's default suffix map. \<open>FSHandler\<close>
  and \<open>rootFS\<close> are the two settings the source builds itself, as
  \<open>initRequestHandler\<close> turns them into a handler over the operating system's
  filesystem (the root is taken as already normalised). \<open>plainRequest\<close> is a request
  for a path with no header the handler reads, and \<open>noFiles\<close> an environment in which
  no file exists.
\<close>

definition FSCompressedFileSuffixes :: "string \<Rightarrow> string" where
  "FSCompressedFileSuffixes k =
     (if k = ''gzip'' then ''.fasthttp.gz''
      else if k = ''br'' then ''.fasthttp.br''
      else if k = ''zstd'' then ''.fasthttp.zst''
      else [])"

definition FSHandler :: "string \<Rightarrow> int \<Rightarrow> fsHandler" where
  "FSHandler root' stripSlashes =
     \<lparr>pathRewrite = (if stripSlashes > 0 then Some (NewPathSlashesStripper stripSlashes)
                     else None),
      pathNotFound = False, isOsFS = True, root = root', compressRoot = root',
      indexNames = [''index.html''], generateIndexPages = True, compress = False,
      compressBrotli = False, compressZstd = False, acceptByteRange = True,
      compressedFileSuffixes = FSCompressedFileSuffixes\<rparr>"

definition rootFS :: fsHandler where
  "rootFS =
     \<lparr>pathRewrite = None, pathNotFound = False, isOsFS = True, root = [], compressRoot = [],
      indexNames = [], generateIndexPages = True, compress = True,
      compressBrotli = True, compressZstd = True, acceptByteRange = True,
      compressedFileSuffixes = FSCompressedFileSuffixes\<rparr>"

definition plainRequest :: "string \<Rightarrow> RequestCtx" where
  "plainRequest path =
     \<lparr>Path = path, peekRange = [], HasAcceptEncodingBr = False,
      HasAcceptEncodingZstd = False, HasAcceptEncodingGzip = False,
      peekIfModifiedSince = None, IsHead = False, ContentType = []\<rparr>"

definition noFiles :: fsEnv where
  "noFiles =
     \<lparr>fsOpen = (\<lambda>p. Inl ErrNotExist), fStat = (\<lambda>f. Inl ErrInvalid),
      fsStat = (\<lambda>p. Inl ErrNotExist),
      compressAndOpenFSFile_result = (\<lambda>p e. Inl ErrNotExist),
      newFSFile_result = (\<lambda>f i c p e. Inl ErrInvalid),
      createDirIndex_result = (\<lambda>p c e. Inl ErrNotExist),
      bigFilesPooled = (\<lambda>a. False), seekError = (\<lambda>a n. None),
      closeError = (\<lambda>a. None), smallReaderPoolBug = False\<rparr>"

subsection \<open>Kinds of effects\<close>

text \<open>
  \<open>isFileEffect\<close> holds of the effects of opening: calls on files and the warning
  that a compressed file could not be created. \<open>isTraversalLog\<close> holds of the log
  entry the handler writes when it rejects a path for its \<open>/../\<close>, and
  \<open>isReaderEffect\<close> of what builds or closes a body stream.
\<close>

fun isFileEffect :: "effect \<Rightarrow> bool" where
  "isFileEffect (callOpen p) = True"
| "isFileEffect (callClose f) = True"
| "isFileEffect (callRemove p) = True"
| "isFileEffect (callCompressAndOpenFSFile p e) = True"
| "isFileEffect (callNewFSFile f c p e) = True"
| "isFileEffect (callCreateDirIndex p c e) = True"
| "isFileEffect (Logf (logNoCreatePermission p)) = True"
| "isFileEffect _ = False"

fun isTraversalLog :: "effect \<Rightarrow> bool" where
  "isTraversalLog (Logf (logSlashDotDot n p)) = True"
| "isTraversalLog _ = False"

fun isReaderEffect :: "effect \<Rightarrow> bool" where
  "isReaderEffect (SetBodyStream r n) = True"
| "isReaderEffect (callReaderClose r) = True"
| "isReaderEffect _ = False"



section \<open>Lemmas about the byte-slice helpers\<close>

lemma IndexByte_takeWhile:
  "IndexByte cs c =
     (if c \<in> set cs then int (length (takeWhile (\<lambda>x. x \<noteq> c) cs)) else -1)"
  by (induction cs) (auto simp: Let_def)

lemma IndexByte_append_first:
  "c \<notin> set S \<Longrightarrow> IndexByte (S @ c # E) c = int (length S)"
  by (induction S) (auto simp: Let_def)

lemma drop_IndexByte:
  "c \<in> set cs \<Longrightarrow>
     drop (nat (IndexByte cs c + 1)) (d # cs) = dropWhile (\<lambda>x. x \<noteq> c) cs"
  by (simp add: IndexByte_takeWhile dropWhile_eq_drop nat_add_distrib)

lemma hd_dropWhile_neq:
  "dropWhile (\<lambda>x. x \<noteq> c) cs \<noteq> [] \<Longrightarrow> hd (dropWhile (\<lambda>x. x \<noteq> c) cs) = c"
  using hd_dropWhile[of "\<lambda>x. x \<noteq> c" cs] by simp

lemma IndexByte_ge0_iff: "0 \<le> IndexByte s c \<longleftrightarrow> c \<in> set s"
  by (simp add: IndexByte_takeWhile)

lemma HasPrefix_iff: "HasPrefix s p \<longleftrightarrow> (\<exists>v. s = p @ v)"
proof
  assume "HasPrefix s p"
  then have "s = p @ drop (length p) s"
    by (metis HasPrefix_def append_take_drop_id)
  then show "\<exists>v. s = p @ v" ..
next
  assume "\<exists>v. s = p @ v"
  then show "HasPrefix s p" by (auto simp: HasPrefix_def)
qed

lemma Index_ge0_iff: "0 \<le> Index s sep \<longleftrightarrow> (\<exists>u v. s = u @ sep @ v)"
proof (induction s)
  case Nil
  then show ?case by auto
next
  case (Cons x xs)
  have split: "(\<exists>u v. x # xs = u @ sep @ v) \<longleftrightarrow>
      HasPrefix (x # xs) sep \<or> (\<exists>u v. xs = u @ sep @ v)"
  proof
    assume "\<exists>u v. x # xs = u @ sep @ v"
    then obtain u v where e: "x # xs = u @ sep @ v" by blast
    show "HasPrefix (x # xs) sep \<or> (\<exists>u v. xs = u @ sep @ v)"
    proof (cases u)
      case Nil
      with e show ?thesis by (auto simp: HasPrefix_iff)
    next
      case (Cons y u')
      with e have "xs = u' @ sep @ v" by simp
      then show ?thesis by blast
    qed
  next
    assume "HasPrefix (x # xs) sep \<or> (\<exists>u v. xs = u @ sep @ v)"
    then show "\<exists>u v. x # xs = u @ sep @ v"
    proof
      assume "HasPrefix (x # xs) sep"
      then obtain v where "x # xs = sep @ v" by (auto simp: HasPrefix_iff)
      then have "x # xs = [] @ sep @ v" by simp
      then show ?thesis by blast
    next
      assume "\<exists>u v. xs = u @ sep @ v"
      then obtain u v where "xs = u @ sep @ v" by blast
      then have "x # xs = (x # u) @ sep @ v" by simp
      then show ?thesis by blast
    qed
  qed
  show ?case
    unfolding split using Cons.IH by (auto simp: Let_def)
qed

section \<open>stripLeadingSlashes: panic and result\<close>

lemma concat_segments: "concat (segments p) = p"
  by (induction p rule: segments.induct) auto

lemma segments_no_slash:
  assumes "CHR ''/'' \<notin> set cs"
  shows "segments (c # cs) = [c # cs]"
proof -
  from assms have "dropWhile (\<lambda>x. x \<noteq> CHR ''/'') cs = []"
    by (induction cs) auto
  moreover from assms have "takeWhile (\<lambda>x. x \<noteq> CHR ''/'') cs = cs"
    by (induction cs) auto
  ultimately show ?thesis
    by (simp del: dropWhile_eq_Nil_conv takeWhile_eq_all_conv)
qed

lemma stripLeadingSlashes_panic:
  "0 < k \<Longrightarrow> path \<noteq> [] \<Longrightarrow> hd path \<noteq> CHR ''/'' \<Longrightarrow>
     stripLeadingSlashes path k = Inl ''BUG: path must start with slash''"
  by (subst stripLeadingSlashes.simps) simp

lemma stripLeadingSlashes_segments:
  "path = [] \<or> hd path = CHR ''/'' \<Longrightarrow>
     stripLeadingSlashes path k = Inr (stripSegments path k)"
proof (induction path k rule: stripLeadingSlashes.induct)
  case (1 path k)
  show ?case
  proof (cases "k > 0 \<and> length path > 0")
    case False
    then show ?thesis
      by (subst stripLeadingSlashes.simps) (auto simp: stripSegments_def concat_segments)
  next
    case True
    then obtain cs where p: "path = CHR ''/'' # cs"
      using 1(2) by (cases path) auto
    from True obtain m where k: "nat k = Suc m" and m: "m = nat (k - 1)"
      by (cases "nat k") auto
    show ?thesis
    proof (cases "CHR ''/'' \<in> set cs")
      case False
      then have "IndexByte (tl path) CHR ''/'' < 0"
        by (simp add: p IndexByte_takeWhile)
      moreover have "segments path = [path]"
        unfolding p by (rule segments_no_slash[OF False])
      moreover have "hd path = CHR ''/''"
        by (simp add: p)
      ultimately show ?thesis using True k
        by (subst stripLeadingSlashes.simps) (simp add: stripSegments_def)
    next
      case slash: True
      let ?rest = "dropWhile (\<lambda>x. x \<noteq> CHR ''/'') cs"
      from slash have n0: "\<not> IndexByte (tl path) CHR ''/'' < 0"
        by (simp add: p IndexByte_takeWhile)
      from slash have d: "drop (nat (IndexByte (tl path) CHR ''/'' + 1)) path = ?rest"
        by (simp add: p drop_IndexByte)
      from slash have "?rest \<noteq> []"
        by (simp add: dropWhile_eq_Nil_conv)
      then have "hd ?rest = CHR ''/''"
        by (rule hd_dropWhile_neq)
      with 1(1)[OF True _ n0] p d
      have ih: "stripLeadingSlashes ?rest (k - 1) = Inr (stripSegments ?rest (k - 1))"
        by simp
      have unfold: "stripLeadingSlashes path k = stripLeadingSlashes ?rest (k - 1)"
        using True n0 d p by (subst stripLeadingSlashes.simps) simp
      have "stripSegments ?rest (k - 1) = stripSegments path k"
        using k m by (simp add: stripSegments_def p)
      with unfold ih show ?thesis by simp
    qed
  qed
qed

section \<open>ParseByteRange: the three forms of a byte range\<close>

lemma ParseByteRange_after_unit:
  "ParseByteRange pu (''bytes='' @ b) L =
     (let n = IndexByte b CHR ''-'' in
      if n < 0 then Inl errMissingEndPosition
      else if n = 0 then
        (case pu (drop (nat (n + 1)) b) of
           Inl err \<Rightarrow> Inl (errParseUint err)
         | Inr v \<Rightarrow> Inr (max 0 (L - v), L - 1))
      else
        (case pu (take (nat n) b) of
           Inl err \<Rightarrow> Inl (errParseUint err)
         | Inr startPos \<Rightarrow>
             if startPos \<ge> L then Inl errStartExceedsLength
             else if drop (nat (n + 1)) b = [] then Inr (startPos, L - 1)
             else
               (case pu (drop (nat (n + 1)) b) of
                  Inl err \<Rightarrow> Inl (errParseUint err)
                | Inr endPos \<Rightarrow>
                    if min endPos (L - 1) < startPos then Inl errStartExceedsEnd
                    else Inr (startPos, min endPos (L - 1)))))"
  unfolding ParseByteRange_def HasPrefix_def strBytes_def Let_def
  by (simp add: max_def min_def split: sum.split)

lemma ParseByteRange_suffix_form:
  "pu N = Inr v \<Longrightarrow>
     ParseByteRange pu (''bytes=-'' @ N) L = Inr (max 0 (L - v), L - 1)"
  using ParseByteRange_after_unit[of pu "CHR ''-'' # N" L] by simp

lemma ParseByteRange_start_form:
  assumes "S \<noteq> []" and "CHR ''-'' \<notin> set S" and "pu S = Inr s"
  shows "ParseByteRange pu (''bytes='' @ S @ CHR ''-'' # E) L =
     (if L \<le> s then Inl errStartExceedsLength
      else if E = [] then Inr (s, L - 1)
      else (case pu E of
              Inl err \<Rightarrow> Inl (errParseUint err)
            | Inr e \<Rightarrow> if min e (L - 1) < s then Inl errStartExceedsEnd
                       else Inr (s, min e (L - 1))))"
proof -
  have n: "IndexByte (S @ CHR ''-'' # E) CHR ''-'' = int (length S)"
    using assms(2) by (rule IndexByte_append_first)
  have pos: "int (length S) \<noteq> 0" "\<not> int (length S) < 0"
    using assms(1) by simp_all
  show ?thesis
    unfolding ParseByteRange_after_unit n Let_def
    using pos assms(3) by (simp add: nat_add_distrib)
qed

lemma ParseUint_examples:
  "ParseUint ''0'' = Inr 0" "ParseUint ''499'' = Inr 499" "ParseUint ''500'' = Inr 500"
  "ParseUint ''100'' = Inr 100" "ParseUint ''1000'' = Inr 1000"
  "ParseUint ''1001'' = Inr 1001"
  by (simp_all add: ParseUint_def isDigit_def digitVal_def maxInt_def)

lemma foldl_digits_nonneg:
  "0 \<le> a \<Longrightarrow> list_all isDigit buf \<Longrightarrow> 0 \<le> foldl (\<lambda>v c. 10 * v + digitVal c) a buf"
  by (induction buf arbitrary: a) (auto simp: isDigit_def digitVal_def)

lemma ParseUint_range: "ParseUint buf = Inr v \<Longrightarrow> 0 \<le> v \<and> v \<le> maxInt"
  by (auto simp: ParseUint_def Let_def foldl_digits_nonneg split: if_splits)

lemma ParseByteRange_unit:
  assumes r: "ParseByteRange pu byteRange L = Inr (s, e)"
  shows "\<exists>b. byteRange = ''bytes='' @ b"
proof -
  have hp: "HasPrefix byteRange strBytes"
  proof (rule ccontr)
    assume "\<not> HasPrefix byteRange strBytes"
    then have "ParseByteRange pu byteRange L = Inl errUnsupportedRangeUnits"
      by (simp add: ParseByteRange_def)
    with r show False by simp
  qed
  then obtain b0 where b0: "byteRange = strBytes @ b0"
    unfolding HasPrefix_iff by blast
  have d: "drop (length strBytes) byteRange = b0" by (simp add: b0)
  have "\<not> (length b0 = 0 \<or> hd b0 \<noteq> CHR ''='')"
  proof
    assume "length b0 = 0 \<or> hd b0 \<noteq> CHR ''=''"
    then have "ParseByteRange pu byteRange L = Inl errMissingByteRange"
      unfolding ParseByteRange_def Let_def d using hp by simp
    with r show False by simp
  qed
  then obtain b where "b0 = CHR ''='' # b" by (cases b0) auto
  with b0 have "byteRange = ''bytes='' @ b" by (simp add: strBytes_def)
  then show ?thesis ..
qed


lemma ParseByteRange_bounds:
  assumes nn: "\<forall>x v. pu x = Inr v \<longrightarrow> 0 \<le> v" and L: "0 \<le> L"
    and r: "ParseByteRange pu byteRange L = Inr (s, e)"
  shows "0 \<le> s \<and> e \<le> L - 1 \<and> s \<le> e + 1"
proof -
  from ParseByteRange_unit[OF r] obtain b where b: "byteRange = ''bytes='' @ b" by blast
  define n where "n = IndexByte b CHR ''-''"
  define sfx where "sfx = drop (nat (n + 1)) b"
  define pre where "pre = take (nat n) b"
  have u: "(if n < 0 then Inl errMissingEndPosition
      else if n = 0 then
        (case pu sfx of
           Inl err \<Rightarrow> Inl (errParseUint err)
         | Inr v \<Rightarrow> Inr (max 0 (L - v), L - 1))
      else
        (case pu pre of
           Inl err \<Rightarrow> Inl (errParseUint err)
         | Inr startPos \<Rightarrow>
             if startPos \<ge> L then Inl errStartExceedsLength
             else if sfx = [] then Inr (startPos, L - 1)
             else
               (case pu sfx of
                  Inl err \<Rightarrow> Inl (errParseUint err)
                | Inr endPos \<Rightarrow>
                    if min endPos (L - 1) < startPos then Inl errStartExceedsEnd
                    else Inr (startPos, min endPos (L - 1))))) = Inr (s, e)"
    using r unfolding b ParseByteRange_after_unit Let_def n_def sfx_def pre_def .
  show ?thesis
  proof (cases "n = 0")
    case True
    show ?thesis
    proof (cases "pu sfx")
      case (Inl err)
      with u True show ?thesis by simp
    next
      case (Inr v)
      with nn have "0 \<le> v" by blast
      moreover from u True Inr have "s = max 0 (L - v)" "e = L - 1" by simp_all
      ultimately show ?thesis using L by (simp add: max_def)
    qed
  next
    case False
    with u have n: "\<not> n < 0" by (cases "n < 0") simp_all
    show ?thesis
    proof (cases "pu pre")
      case (Inl err)
      with u False n show ?thesis by simp
    next
      case (Inr s0)
      with nn have s0: "0 \<le> s0" by blast
      from u False n Inr have lt: "\<not> L \<le> s0" by (cases "L \<le> s0") simp_all
      show ?thesis
      proof (cases "sfx = []")
        case True
        with u False n Inr lt have "s = s0" "e = L - 1" by simp_all
        with s0 lt show ?thesis by simp
      next
        case ne: False
        show ?thesis
        proof (cases "pu sfx")
          case (Inl err)
          with u False n Inr lt ne show ?thesis by simp
        next
          case e0: (Inr e0)
          from u False n Inr lt ne e0
          have "(if min e0 (L - 1) < s0 then Inl errStartExceedsEnd
                 else Inr (s0, min e0 (L - 1))) = Inr (s, e)"
            by simp
          then have "\<not> min e0 (L - 1) < s0 \<and> s = s0 \<and> e = min e0 (L - 1)"
            by (cases "min e0 (L - 1) < s0") simp_all
          with s0 show ?thesis by simp
        qed
      qed
    qed
  qed
qed

text \<open>
  Claim C1. \<open>ParseByteRange\<close> returns inclusive positions. For every number parser
  \<open>pu\<close> and content length \<open>L\<close>: the suffix form \<open>bytes=-N\<close> yields
  \<open>(max 0 (L - v), L - 1)\<close> where \<open>v\<close> is the value of \<open>N\<close>; in the forms
  \<open>bytes=S-\<close> and \<open>bytes=S-E\<close> a start at or beyond \<open>L\<close> is an error, the open
  end extends to \<open>L - 1\<close>, an end beyond \<open>L - 1\<close> is clamped to \<open>L - 1\<close>, and an end
  below the start after clamping is an error. Whatever the header, a result lies in the
  content: the start is not negative and the end is at most \<open>L - 1\<close>; the start exceeds
  the end by at most one, which happens only in the suffix form (for \<open>N = 0\<close> or
  \<open>L = 0\<close>, the empty range the formula gives). The five examples of the spec hold for
  the decimal parser, whose values are machine integers that are not negative.
\<close>

theorem ParseByteRange_rfc2616:
  "(pu N = Inr v \<longrightarrow>
      ParseByteRange pu (''bytes=-'' @ N) L = Inr (max 0 (L - v), L - 1))
   \<and> (S \<noteq> [] \<and> CHR ''-'' \<notin> set S \<and> pu S = Inr s \<longrightarrow>
        (L \<le> s \<longrightarrow>
           ParseByteRange pu (''bytes='' @ S @ ''-'' @ E) L = Inl errStartExceedsLength)
      \<and> (s < L \<longrightarrow> ParseByteRange pu (''bytes='' @ S @ ''-'') L = Inr (s, L - 1))
      \<and> (s < L \<and> E \<noteq> [] \<and> pu E = Inr e \<longrightarrow>
           ParseByteRange pu (''bytes='' @ S @ ''-'' @ E) L =
             (if min e (L - 1) < s then Inl errStartExceedsEnd
              else Inr (s, min e (L - 1)))))
   \<and> ((\<forall>x w. pu x = Inr w \<longrightarrow> 0 \<le> w) \<and> 0 \<le> L \<and>
       ParseByteRange pu byteRange L = Inr (startPos, endPos) \<longrightarrow>
        0 \<le> startPos \<and> endPos \<le> L - 1 \<and> startPos \<le> endPos + 1)
   \<and> (\<forall>x w. ParseUint x = Inr w \<longrightarrow> 0 \<le> w \<and> w \<le> maxInt)
   \<and> ParseByteRange ParseUint ''bytes=0-499'' 1000 = Inr (0, 499)
   \<and> ParseByteRange ParseUint ''bytes=500-'' 1000 = Inr (500, 999)
   \<and> ParseByteRange ParseUint ''bytes=-100'' 1000 = Inr (900, 999)
   \<and> ParseByteRange ParseUint ''bytes=1000-1001'' 1000 = Inl errStartExceedsLength
   \<and> ParseByteRange ParseUint ''bytes=500-100'' 1000 = Inl errStartExceedsEnd"
proof -
  have suffix: "pu N = Inr v \<longrightarrow>
      ParseByteRange pu (''bytes=-'' @ N) L = Inr (max 0 (L - v), L - 1)"
    using ParseByteRange_suffix_form[of pu N v L] by simp
  have start: "S \<noteq> [] \<and> CHR ''-'' \<notin> set S \<and> pu S = Inr s \<longrightarrow>
        (L \<le> s \<longrightarrow>
           ParseByteRange pu (''bytes='' @ S @ ''-'' @ E) L = Inl errStartExceedsLength)
      \<and> (s < L \<longrightarrow> ParseByteRange pu (''bytes='' @ S @ ''-'') L = Inr (s, L - 1))
      \<and> (s < L \<and> E \<noteq> [] \<and> pu E = Inr e \<longrightarrow>
           ParseByteRange pu (''bytes='' @ S @ ''-'' @ E) L =
             (if min e (L - 1) < s then Inl errStartExceedsEnd
              else Inr (s, min e (L - 1))))"
  proof (intro impI)
    assume a: "S \<noteq> [] \<and> CHR ''-'' \<notin> set S \<and> pu S = Inr s"
    have f: "ParseByteRange pu (''bytes='' @ S @ CHR ''-'' # E') L =
       (if L \<le> s then Inl errStartExceedsLength
        else if E' = [] then Inr (s, L - 1)
        else (case pu E' of
                Inl err \<Rightarrow> Inl (errParseUint err)
              | Inr e \<Rightarrow> if min e (L - 1) < s then Inl errStartExceedsEnd
                         else Inr (s, min e (L - 1))))" for E'
      using a ParseByteRange_start_form[of S pu s E' L] by simp
    show "(L \<le> s \<longrightarrow>
           ParseByteRange pu (''bytes='' @ S @ ''-'' @ E) L = Inl errStartExceedsLength)
      \<and> (s < L \<longrightarrow> ParseByteRange pu (''bytes='' @ S @ ''-'') L = Inr (s, L - 1))
      \<and> (s < L \<and> E \<noteq> [] \<and> pu E = Inr e \<longrightarrow>
           ParseByteRange pu (''bytes='' @ S @ ''-'' @ E) L =
             (if min e (L - 1) < s then Inl errStartExceedsEnd
              else Inr (s, min e (L - 1))))"
      using f[of E] f[of "[]"] by simp
  qed
  have bounds: "(\<forall>x w. pu x = Inr w \<longrightarrow> 0 \<le> w) \<and> 0 \<le> L \<and>
       ParseByteRange pu byteRange L = Inr (startPos, endPos) \<longrightarrow>
        0 \<le> startPos \<and> endPos \<le> L - 1 \<and> startPos \<le> endPos + 1"
    using ParseByteRange_bounds[of pu L byteRange startPos endPos] by blast
  have range: "\<forall>x w. ParseUint x = Inr w \<longrightarrow> 0 \<le> w \<and> w \<le> maxInt"
    using ParseUint_range by blast
  have e1: "ParseByteRange ParseUint ''bytes=0-499'' 1000 = Inr (0, 499)"
    using ParseByteRange_start_form[of "''0''" ParseUint 0 "''499''" 1000]
    by (simp add: ParseUint_examples)
  have e2: "ParseByteRange ParseUint ''bytes=500-'' 1000 = Inr (500, 999)"
    using ParseByteRange_start_form[of "''500''" ParseUint 500 "[]" 1000]
    by (simp add: ParseUint_examples)
  have e3: "ParseByteRange ParseUint ''bytes=-100'' 1000 = Inr (900, 999)"
    using ParseByteRange_suffix_form[of ParseUint "''100''" 100 1000]
    by (simp add: ParseUint_examples)
  have e4: "ParseByteRange ParseUint ''bytes=1000-1001'' 1000 = Inl errStartExceedsLength"
    using ParseByteRange_start_form[of "''1000''" ParseUint 1000 "''1001''" 1000]
    by (simp add: ParseUint_examples)
  have e5: "ParseByteRange ParseUint ''bytes=500-100'' 1000 = Inl errStartExceedsEnd"
    using ParseByteRange_start_form[of "''500''" ParseUint 500 "''100''" 1000]
    by (simp add: ParseUint_examples)
  from suffix start bounds range e1 e2 e3 e4 e5 show ?thesis
    by (intro conjI) assumption+
qed

theorem ParseByteRange_rfc2616_witness:
  "ParseByteRange ParseUint ''bytes=-1001'' 1000 = Inr (0, 999)
   \<and> ParseByteRange ParseUint ''bytes=1000-'' 1000 = Inl errStartExceedsLength
   \<and> ParseByteRange ParseUint ''bytes=100-'' 1000 = Inr (100, 999)
   \<and> ParseByteRange ParseUint ''bytes=100-1001'' 1000 = Inr (100, 999)
   \<and> ParseByteRange ParseUint ''bytes=500-499'' 1000 = Inl errStartExceedsEnd
   \<and> ParseByteRange ParseUint ''bytes=-0'' 1000 = Inr (1000, 999)
   \<and> (0::int) \<le> 1000 \<and> (999::int) \<le> 1000 - 1 \<and> (1000::int) \<le> 999 + 1"
proof -
  have pu: "ParseUint ''1001'' = Inr 1001" "ParseUint ''1000'' = Inr 1000"
    "ParseUint ''100'' = Inr 100" "ParseUint ''500'' = Inr 500" "ParseUint ''499'' = Inr 499"
    "ParseUint ''0'' = Inr 0"
    by (simp_all add: ParseUint_def isDigit_def digitVal_def maxInt_def)
  note t1 = ParseByteRange_rfc2616[where pu=ParseUint and N="''1001''" and v=1001
      and L=1000 and S="''1000''" and s=1000 and E="[]" and e=0
      and byteRange="''bytes=-0''" and startPos=1000 and endPos=999]
  note t2 = ParseByteRange_rfc2616[where pu=ParseUint and N="''0''" and v=0
      and L=1000 and S="''100''" and s=100 and E="''1001''" and e=1001
      and byteRange="''bytes=-0''" and startPos=1000 and endPos=999]
  note t3 = ParseByteRange_rfc2616[where pu=ParseUint and N="''0''" and v=0
      and L=1000 and S="''500''" and s=500 and E="''499''" and e=499
      and byteRange="''bytes=-0''" and startPos=1000 and endPos=999]
  have a: "ParseByteRange ParseUint ''bytes=-1001'' 1000 = Inr (0, 999)"
    and b: "ParseByteRange ParseUint ''bytes=1000-'' 1000 = Inl errStartExceedsLength"
    using t1 pu by simp_all
  have c: "ParseByteRange ParseUint ''bytes=100-'' 1000 = Inr (100, 999)"
    and d: "ParseByteRange ParseUint ''bytes=100-1001'' 1000 = Inr (100, 999)"
    and z: "ParseByteRange ParseUint ''bytes=-0'' 1000 = Inr (1000, 999)"
    using t2 pu by simp_all
  have f: "ParseByteRange ParseUint ''bytes=500-499'' 1000 = Inl errStartExceedsEnd"
    using t3 pu by simp
  from a b c d f z show ?thesis by simp
qed

section \<open>SetFileToCache and GetFileFromCache\<close>

lemma kinds_distinct:
  "brotliCacheKind \<noteq> gzipCacheKind" "brotliCacheKind \<noteq> zstdCacheKind"
  "gzipCacheKind \<noteq> zstdCacheKind" "gzipCacheKind \<noteq> brotliCacheKind"
  "zstdCacheKind \<noteq> brotliCacheKind" "zstdCacheKind \<noteq> gzipCacheKind"
  by (simp_all add: brotliCacheKind_def gzipCacheKind_def zstdCacheKind_def)

lemma getFsCache_setFsCache_same: "getFsCache (setFsCache cm k c) k = c"
  by (simp add: getFsCache_def setFsCache_def kinds_distinct)

lemma getFsCache_setFsCache_cases:
  "(getFsCache (setFsCache cm k c) k' = c \<and> getFsCache cm k' = getFsCache cm k)
   \<or> getFsCache (setFsCache cm k c) k' = getFsCache cm k'"
  by (simp add: getFsCache_def setFsCache_def kinds_distinct)

lemma SetFileToCache_keeps:
  assumes "map_of (getFsCache cm k) p = Some e"
    and "SetFileToCache cm h k' p' ff = (r, cm', h')"
  shows "map_of (getFsCache cm' k) p = Some e"
proof (cases "map_of (getFsCache cm k') p'")
  case None
  then have cm': "cm' = setFsCache cm k' (AList.update p' ff (getFsCache cm k'))"
    using assms(2) by (auto simp: SetFileToCache_def Let_def)
  from getFsCache_setFsCache_cases[of cm k' "AList.update p' ff (getFsCache cm k')" k]
  show ?thesis
  proof
    assume a: "getFsCache (setFsCache cm k' (AList.update p' ff (getFsCache cm k'))) k =
        AList.update p' ff (getFsCache cm k') \<and> getFsCache cm k = getFsCache cm k'"
    with None assms(1) have "p \<noteq> p'" by auto
    with a assms(1) show ?thesis by (simp add: cm' update_conv')
  next
    assume "getFsCache (setFsCache cm k' (AList.update p' ff (getFsCache cm k'))) k =
        getFsCache cm k"
    with assms(1) show ?thesis by (simp add: cm')
  qed
next
  case (Some a)
  then have "cm' = cm" using assms(2) by (simp add: SetFileToCache_def Let_def)
  with assms(1) show ?thesis by simp
qed

lemma SetFileToCache_distinct:
  assumes "\<forall>k. distinct (map fst (getFsCache cm k))"
    and "SetFileToCache cm h k' p' ff = (r, cm', h')"
  shows "distinct (map fst (getFsCache cm' k))"
proof (cases "map_of (getFsCache cm k') p'")
  case None
  then have cm': "cm' = setFsCache cm k' (AList.update p' ff (getFsCache cm k'))"
    using assms(2) by (auto simp: SetFileToCache_def Let_def)
  have "distinct (map fst (AList.update p' ff (getFsCache cm k')))"
    using assms(1) by (simp add: distinct_update)
  with getFsCache_setFsCache_cases[of cm k' "AList.update p' ff (getFsCache cm k')" k] assms(1)
  show ?thesis unfolding cm' by metis
next
  case (Some a)
  then have "cm' = cm" using assms(2) by (simp add: SetFileToCache_def Let_def)
  with assms(1) show ?thesis by simp
qed

lemma SetFilesToCache_keeps:
  "map_of (getFsCache cm k) p = Some e \<Longrightarrow>
     map_of (getFsCache (fst (SetFilesToCache cm h puts)) k) p = Some e"
proof (induction puts arbitrary: cm h)
  case Nil
  then show ?case by simp
next
  case (Cons x puts)
  obtain k' p' ff where x: "x = (k', p', ff)" by (cases x) auto
  obtain r cm' h' where s: "SetFileToCache cm h k' p' ff = (r, cm', h')"
    by (cases "SetFileToCache cm h k' p' ff") auto
  from SetFileToCache_keeps[OF Cons.prems s] have "map_of (getFsCache cm' k) p = Some e" .
  from Cons.IH[OF this] show ?case by (simp add: x s)
qed

lemma SetFilesToCache_distinct:
  "\<forall>k. distinct (map fst (getFsCache cm k)) \<Longrightarrow>
     distinct (map fst (getFsCache (fst (SetFilesToCache cm h puts)) k))"
proof (induction puts arbitrary: cm h)
  case Nil
  then show ?case by simp
next
  case (Cons x puts)
  obtain k' p' ff where x: "x = (k', p', ff)" by (cases x) auto
  obtain r cm' h' where s: "SetFileToCache cm h k' p' ff = (r, cm', h')"
    by (cases "SetFileToCache cm h k' p' ff") auto
  have "\<forall>k. distinct (map fst (getFsCache cm' k))"
    using SetFileToCache_distinct[OF Cons.prems s] by simp
  from Cons.IH[OF this] show ?case by (simp add: x s)
qed

lemma SetFileToCache_miss:
  assumes "map_of (getFsCache cm k) p = None"
  shows "SetFileToCache cm h k p ff =
     (ff, setFsCache cm k (AList.update p ff (getFsCache cm k)), incReadersCount h ff)"
  using assms by (simp add: SetFileToCache_def Let_def)

lemma SetFileToCache_hit:
  assumes "map_of (getFsCache cm k) p = Some ff1"
  shows "SetFileToCache cm h k p ff = (ff1, cm, Release (incReadersCount h ff1) ff)"
  using assms by (simp add: SetFileToCache_def Let_def)

lemma readersCount_Release: "readersCount (Release h a b) = readersCount (h b)"
  by (simp add: Release_def)

lemma wrapInt_id: "minInt \<le> x \<Longrightarrow> x \<le> maxInt \<Longrightarrow> wrapInt x = x"
  by (simp add: wrapInt_def minInt_def maxInt_def)

lemma wrapInt_range: "minInt \<le> wrapInt x \<and> wrapInt x \<le> maxInt"
proof -
  have "0 \<le> (x + 2 ^ 63) mod 2 ^ 64" "(x + 2 ^ 63) mod 2 ^ 64 < (2 ^ 64 :: int)"
    by simp_all
  then show ?thesis by (simp add: wrapInt_def minInt_def maxInt_def)
qed

lemma wrapInt_maxInt: "wrapInt (maxInt + 1) = minInt"
  by (simp add: wrapInt_def minInt_def maxInt_def)

lemma wrapInt_minInt: "wrapInt (minInt - 1) = maxInt"
  by (simp add: wrapInt_def minInt_def maxInt_def)

lemma readersCount_inc:
  "readersCount (incReadersCount h a b) =
     (if b = a then wrapInt (readersCount (h a) + 1) else readersCount (h b))"
  by (simp add: incReadersCount_def)

lemma readersCount_inc_in_range:
  "0 \<le> readersCount (h a) \<Longrightarrow> readersCount (h a) < maxInt \<Longrightarrow>
     readersCount (incReadersCount h a a) = readersCount (h a) + 1"
  by (simp add: readersCount_inc wrapInt_id minInt_def)

lemma readersCount_dec:
  "readersCount (decReadersCount h a b) =
     (if b = a then max 0 (wrapInt (readersCount (h a) - 1)) else readersCount (h b))"
  by (simp add: decReadersCount_def Let_def max_def)

text \<open>
  At the largest \<open>int\<close> the increment wraps to the least one, and the decrement of the
  least one wraps to the largest, which the clamp of \<open>decReadersCount\<close> does not see.
\<close>

lemma incReadersCount_wraps:
  "readersCount (h ff) = maxInt \<Longrightarrow> readersCount (incReadersCount h ff ff) = minInt"
  by (simp add: readersCount_inc wrapInt_maxInt)

lemma decReadersCount_wraps:
  "readersCount (h ff) = minInt \<Longrightarrow> readersCount (decReadersCount h ff ff) = maxInt"
  by (simp add: readersCount_dec wrapInt_minInt maxInt_def)


section \<open>The sweep: what is kept, deferred and released\<close>

lemma splitPending_eq:
  "splitPending h fs rem rel =
     (rem @ filter (\<lambda>ff. readersCount (h ff) > 0) fs,
      rel @ filter (\<lambda>ff. \<not> readersCount (h ff) > 0) fs)"
  by (induction fs arbitrary: rem rel) auto

lemma delete_filter: "AList.delete k c = filter (\<lambda>e. fst e \<noteq> k) c"
  by (induction c) auto

lemma cleanLoop_eq:
  "cleanLoop h now d es c p r =
     (filter (\<lambda>e. fst e \<notin> set (map fst (filter (\<lambda>e. Sub now (ff_t (h (snd e))) > d) es))) c,
      p @ map snd (filter (\<lambda>e. Sub now (ff_t (h (snd e))) > d \<and> readersCount (h (snd e)) > 0) es),
      r @ map snd (filter (\<lambda>e. Sub now (ff_t (h (snd e))) > d \<and> \<not> readersCount (h (snd e)) > 0) es))"
proof (induction es arbitrary: c p r)
  case Nil
  then show ?case by simp
next
  case (Cons x es)
  obtain k ff where x: "x = (k, ff)" by (cases x) auto
  show ?case
    by (simp add: x Cons.IH delete_filter conj_commute)
qed


lemma foldl_Release:
  "foldl Release h rel a =
     (if a \<in> set rel \<and> ff_f (h a) then (h a)\<lparr>f_closed := True\<rparr> else h a)"
  by (induction rel arbitrary: h) (auto simp: Release_def)

lemma cleanCacheLocked_eq:
  "cleanCacheLocked cm h n0 n1 n2 n3 pf =
    (cm\<lparr>cache := filter (\<lambda>e. fst e \<notin> set (map fst (filter (\<lambda>e. isStale h n0 (cacheDuration cm) (snd e)) (cache cm)))) (cache cm),
        cacheBrotli := filter (\<lambda>e. fst e \<notin> set (map fst (filter (\<lambda>e. isStale h n1 (cacheDuration cm) (snd e)) (cacheBrotli cm)))) (cacheBrotli cm),
        cacheGzip := filter (\<lambda>e. fst e \<notin> set (map fst (filter (\<lambda>e. isStale h n2 (cacheDuration cm) (snd e)) (cacheGzip cm)))) (cacheGzip cm),
        cacheZstd := filter (\<lambda>e. fst e \<notin> set (map fst (filter (\<lambda>e. isStale h n3 (cacheDuration cm) (snd e)) (cacheZstd cm)))) (cacheZstd cm)\<rparr>,
     filter (\<lambda>ff. readersCount (h ff) > 0) pf
       @ map snd (filter (\<lambda>e. isStale h n0 (cacheDuration cm) (snd e) \<and> readersCount (h (snd e)) > 0) (cache cm))
       @ map snd (filter (\<lambda>e. isStale h n1 (cacheDuration cm) (snd e) \<and> readersCount (h (snd e)) > 0) (cacheBrotli cm))
       @ map snd (filter (\<lambda>e. isStale h n2 (cacheDuration cm) (snd e) \<and> readersCount (h (snd e)) > 0) (cacheGzip cm))
       @ map snd (filter (\<lambda>e. isStale h n3 (cacheDuration cm) (snd e) \<and> readersCount (h (snd e)) > 0) (cacheZstd cm)),
     filter (\<lambda>ff. \<not> readersCount (h ff) > 0) pf
       @ map snd (filter (\<lambda>e. isStale h n0 (cacheDuration cm) (snd e) \<and> \<not> readersCount (h (snd e)) > 0) (cache cm))
       @ map snd (filter (\<lambda>e. isStale h n1 (cacheDuration cm) (snd e) \<and> \<not> readersCount (h (snd e)) > 0) (cacheBrotli cm))
       @ map snd (filter (\<lambda>e. isStale h n2 (cacheDuration cm) (snd e) \<and> \<not> readersCount (h (snd e)) > 0) (cacheGzip cm))
       @ map snd (filter (\<lambda>e. isStale h n3 (cacheDuration cm) (snd e) \<and> \<not> readersCount (h (snd e)) > 0) (cacheZstd cm)))"
  unfolding cleanCacheLocked_def cleanCacheNolock_def cleanLoop_eq splitPending_eq isStale_def
  by simp

lemma sweep_rel_no_readers:
  assumes "cleanCacheLocked cm h n0 n1 n2 n3 pf = (cm', pend, rel)"
  shows "\<forall>ff \<in> set rel. \<not> readersCount (h ff) > 0"
    and "\<forall>ff \<in> set pend. readersCount (h ff) > 0"
    and "\<forall>ff \<in> set pf. if readersCount (h ff) > 0 then ff \<in> set pend else ff \<in> set rel"
  using assms unfolding cleanCacheLocked_eq by auto

lemma sweep_partition:
  fixes c :: fileCache
  assumes "c' = filter (\<lambda>e. fst e \<notin> set (map fst (filter (\<lambda>e. isStale h n d (snd e)) c))) c"
  shows "\<forall>k ff. (k, ff) \<in> set c \<and> isStale h n d ff \<longrightarrow> k \<notin> fst ` set c'"
    and "\<forall>(k, ff) \<in> set c'. (k, ff) \<in> set c \<and> \<not> isStale h n d ff"
  using assms by force+

text \<open>
  Claim C2. When the partition has no entry for the key, \<open>SetFileToCache\<close> stores the
  candidate, counts it as a reader (its count becomes one for a newly built entry, whose
  count is zero) and returns it without releasing anything. When an entry exists, it
  releases the candidate, increments the existing entry's count, leaves the index as it
  is and returns the existing entry. The increment is the one of the machine integer:
  one more for every count from zero up to, and not including, the largest \<open>int\<close>. So over any sequence of puts the keys of every
  partition stay distinct (at most one entry per encoding and key), an entry in place is
  never replaced, and the first put for a free key decides the entry for good.
\<close>

theorem SetFileToCache_first_writer_wins:
  "(SetFileToCache cm h cacheKind path ff = (r, cm', h') \<longrightarrow>
      (map_of (getFsCache cm cacheKind) path = None \<longrightarrow>
         r = ff \<and> map_of (getFsCache cm' cacheKind) path = Some ff \<and>
         readersCount (h' ff) = wrapInt (readersCount (h ff) + 1) \<and>
         (0 \<le> readersCount (h ff) \<and> readersCount (h ff) < maxInt \<longrightarrow>
            readersCount (h' ff) = readersCount (h ff) + 1) \<and>
         (readersCount (h ff) = 0 \<longrightarrow> readersCount (h' ff) = 1) \<and>
         f_closed (h' ff) = f_closed (h ff) \<and>
         (\<forall>a. a \<noteq> ff \<longrightarrow> h' a = h a))
    \<and> (\<forall>ff1. map_of (getFsCache cm cacheKind) path = Some ff1 \<longrightarrow>
         r = ff1 \<and> cm' = cm \<and>
         h' = Release (incReadersCount h ff1) ff \<and>
         readersCount (h' ff1) = wrapInt (readersCount (h ff1) + 1) \<and>
         (0 \<le> readersCount (h ff1) \<and> readersCount (h ff1) < maxInt \<longrightarrow>
            readersCount (h' ff1) = readersCount (h ff1) + 1) \<and>
         (ff_f (h ff) \<longrightarrow> f_closed (h' ff))))
   \<and> ((\<forall>k. distinct (map fst (getFsCache cm k))) \<longrightarrow>
        (\<forall>k. distinct (map fst (getFsCache (fst (SetFilesToCache cm h puts)) k))))
   \<and> (\<forall>ff1. map_of (getFsCache cm cacheKind) path = Some ff1 \<longrightarrow>
        map_of (getFsCache (fst (SetFilesToCache cm h puts)) cacheKind) path = Some ff1)
   \<and> (map_of (getFsCache cm cacheKind) path = None \<longrightarrow>
        map_of (getFsCache (fst (SetFilesToCache cm h ((cacheKind, path, ff) # puts)))
          cacheKind) path = Some ff)"
proof (intro conjI impI allI)
  assume s: "SetFileToCache cm h cacheKind path ff = (r, cm', h')"
    and none: "map_of (getFsCache cm cacheKind) path = None"
  from s SetFileToCache_miss[OF none, of h ff]
  have eq: "r = ff"
    "cm' = setFsCache cm cacheKind (AList.update path ff (getFsCache cm cacheKind))"
    "h' = incReadersCount h ff"
    by auto
  show "r = ff" by (rule eq(1))
  show "map_of (getFsCache cm' cacheKind) path = Some ff"
    by (simp add: eq(2) getFsCache_setFsCache_same update_conv')
  show "readersCount (h' ff) = wrapInt (readersCount (h ff) + 1)"
    by (simp add: eq(3) readersCount_inc)
  show "readersCount (h' ff) = readersCount (h ff) + 1"
    if "0 \<le> readersCount (h ff) \<and> readersCount (h ff) < maxInt"
    using that by (simp add: eq(3) readersCount_inc_in_range)
  show "f_closed (h' ff) = f_closed (h ff)"
    by (simp add: eq(3) incReadersCount_def)
  show "h' a = h a" if "a \<noteq> ff" for a
    using that by (simp add: eq(3) incReadersCount_def)
  show "readersCount (h' ff) = 1" if "readersCount (h ff) = 0"
    using that by (simp add: eq(3) readersCount_inc wrapInt_id minInt_def maxInt_def)
next
  fix ff1
  assume s: "SetFileToCache cm h cacheKind path ff = (r, cm', h')"
    and some: "map_of (getFsCache cm cacheKind) path = Some ff1"
  from s SetFileToCache_hit[OF some, of h ff]
  have eq: "r = ff1" "cm' = cm" "h' = Release (incReadersCount h ff1) ff"
    by auto
  show "r = ff1" by (rule eq(1))
  show "cm' = cm" by (rule eq(2))
  show "h' = Release (incReadersCount h ff1) ff" by (rule eq(3))
  show "readersCount (h' ff1) = wrapInt (readersCount (h ff1) + 1)"
    by (simp add: eq(3) readersCount_Release readersCount_inc)
  show "readersCount (h' ff1) = readersCount (h ff1) + 1"
    if "0 \<le> readersCount (h ff1) \<and> readersCount (h ff1) < maxInt"
    using that by (simp add: eq(3) readersCount_Release readersCount_inc_in_range)
  show "f_closed (h' ff)" if "ff_f (h ff)"
    using that by (auto simp: eq(3) Release_def incReadersCount_def)
next
  fix k
  assume "\<forall>k. distinct (map fst (getFsCache cm k))"
  then show "distinct (map fst (getFsCache (fst (SetFilesToCache cm h puts)) k))"
    by (rule SetFilesToCache_distinct)
next
  fix ff1
  assume "map_of (getFsCache cm cacheKind) path = Some ff1"
  then show "map_of (getFsCache (fst (SetFilesToCache cm h puts)) cacheKind) path = Some ff1"
    by (rule SetFilesToCache_keeps)
next
  assume none: "map_of (getFsCache cm cacheKind) path = None"
  let ?cm = "setFsCache cm cacheKind (AList.update path ff (getFsCache cm cacheKind))"
  have "map_of (getFsCache ?cm cacheKind) path = Some ff"
    by (simp add: getFsCache_setFsCache_same update_conv')
  from SetFilesToCache_keeps[OF this, of "incReadersCount h ff" puts]
  show "map_of (getFsCache (fst (SetFilesToCache cm h ((cacheKind, path, ff) # puts)))
      cacheKind) path = Some ff"
    by (simp add: SetFileToCache_miss[OF none])
qed

theorem SetFileToCache_first_writer_wins_witness:
  "SetFileToCache (newInMemoryCacheManager 0) (\<lambda>a. zeroFsFile) gzipCacheKind ''/a'' 1 =
     (1, (newInMemoryCacheManager 0)\<lparr>cacheGzip := [(''/a'', 1)]\<rparr>,
      (\<lambda>a. zeroFsFile)(1 := zeroFsFile\<lparr>readersCount := 1\<rparr>))
   \<and> SetFileToCache ((newInMemoryCacheManager 0)\<lparr>cacheGzip := [(''/a'', 1)]\<rparr>)
        (\<lambda>a. zeroFsFile\<lparr>ff_f := True\<rparr>) gzipCacheKind ''/a'' 2 =
     (1, (newInMemoryCacheManager 0)\<lparr>cacheGzip := [(''/a'', 1)]\<rparr>,
      (\<lambda>a. zeroFsFile\<lparr>ff_f := True\<rparr>)
        (1 := zeroFsFile\<lparr>ff_f := True, readersCount := 1\<rparr>,
         2 := zeroFsFile\<lparr>ff_f := True, f_closed := True\<rparr>))
   \<and> map_of (getFsCache (fst (SetFilesToCache (newInMemoryCacheManager 0) (\<lambda>a. zeroFsFile)
        [(gzipCacheKind, ''/a'', 1), (gzipCacheKind, ''/a'', 2), (brotliCacheKind, ''/a'', 3)]))
        gzipCacheKind) ''/a'' = Some 1
   \<and> distinct (map fst (getFsCache (fst (SetFilesToCache (newInMemoryCacheManager 0)
        (\<lambda>a. zeroFsFile)
        [(gzipCacheKind, ''/a'', 1), (gzipCacheKind, ''/a'', 2), (brotliCacheKind, ''/a'', 3)]))
        gzipCacheKind))"
proof -
  let ?cm = "newInMemoryCacheManager 0"
  let ?h = "\<lambda>a::addr. zeroFsFile"
  let ?cm1 = "?cm\<lparr>cacheGzip := [(''/a'', 1)]\<rparr>"
  let ?h1 = "\<lambda>a::addr. zeroFsFile\<lparr>ff_f := True\<rparr>"
  let ?puts = "[(gzipCacheKind, ''/a'', 1::addr), (gzipCacheKind, ''/a'', 2),
    (brotliCacheKind, ''/a'', 3)]"
  have none: "map_of (getFsCache ?cm gzipCacheKind) ''/a'' = None"
    by (simp add: newInMemoryCacheManager_def getFsCache_def kinds_distinct)
  have some: "map_of (getFsCache ?cm1 gzipCacheKind) ''/a'' = Some 1"
    by (simp add: newInMemoryCacheManager_def getFsCache_def kinds_distinct)
  have dist: "\<forall>k. distinct (map fst (getFsCache ?cm k))"
    by (simp add: newInMemoryCacheManager_def getFsCache_def)
  have a: "SetFileToCache ?cm ?h gzipCacheKind ''/a'' 1 =
     (1, ?cm1, ?h(1 := zeroFsFile\<lparr>readersCount := 1\<rparr>))"
    using SetFileToCache_miss[OF none, of ?h 1]
    by (simp add: setFsCache_def kinds_distinct getFsCache_def newInMemoryCacheManager_def
        incReadersCount_def zeroFsFile_def wrapInt_id minInt_def maxInt_def)
  have b: "SetFileToCache ?cm1 ?h1 gzipCacheKind ''/a'' 2 =
     (1, ?cm1, ?h1(1 := zeroFsFile\<lparr>ff_f := True, readersCount := 1\<rparr>,
         2 := zeroFsFile\<lparr>ff_f := True, f_closed := True\<rparr>))"
    using SetFileToCache_hit[OF some, of ?h1 2]
    by (simp add: incReadersCount_def Release_def zeroFsFile_def wrapInt_id minInt_def
        maxInt_def)
  from SetFileToCache_first_writer_wins[of ?cm ?h gzipCacheKind "''/a''" 1 1 ?cm1
      "?h(1 := zeroFsFile\<lparr>readersCount := 1\<rparr>)" "tl ?puts"] none dist a
  have c: "map_of (getFsCache (fst (SetFilesToCache ?cm ?h ?puts)) gzipCacheKind) ''/a'' = Some 1"
    and d: "distinct (map fst (getFsCache (fst (SetFilesToCache ?cm ?h (tl ?puts))) gzipCacheKind))"
    by simp_all
  from SetFileToCache_first_writer_wins[of ?cm ?h gzipCacheKind "''/a''" 1 1 ?cm1
      "?h(1 := zeroFsFile\<lparr>readersCount := 1\<rparr>)" ?puts] dist
  have e: "distinct (map fst (getFsCache (fst (SetFilesToCache ?cm ?h ?puts)) gzipCacheKind))"
    by blast
  from a b c e show ?thesis by blast
qed

lemma sweep_caches:
  assumes a: "cleanCacheLocked cm h now0 now1 now2 now3 pendingFiles = (cm', pend, rel)"
  shows "cache cm' = filter (\<lambda>e. fst e \<notin> set (map fst
      (filter (\<lambda>e. isStale h now0 (cacheDuration cm) (snd e)) (cache cm)))) (cache cm)"
    and "cacheBrotli cm' = filter (\<lambda>e. fst e \<notin> set (map fst
      (filter (\<lambda>e. isStale h now1 (cacheDuration cm) (snd e)) (cacheBrotli cm)))) (cacheBrotli cm)"
    and "cacheGzip cm' = filter (\<lambda>e. fst e \<notin> set (map fst
      (filter (\<lambda>e. isStale h now2 (cacheDuration cm) (snd e)) (cacheGzip cm)))) (cacheGzip cm)"
    and "cacheZstd cm' = filter (\<lambda>e. fst e \<notin> set (map fst
      (filter (\<lambda>e. isStale h now3 (cacheDuration cm) (snd e)) (cacheZstd cm)))) (cacheZstd cm)"
proof -
  from a have "cm' = fst (cleanCacheLocked cm h now0 now1 now2 now3 pendingFiles)" by simp
  then show "cache cm' = filter (\<lambda>e. fst e \<notin> set (map fst
      (filter (\<lambda>e. isStale h now0 (cacheDuration cm) (snd e)) (cache cm)))) (cache cm)"
    and "cacheBrotli cm' = filter (\<lambda>e. fst e \<notin> set (map fst
      (filter (\<lambda>e. isStale h now1 (cacheDuration cm) (snd e)) (cacheBrotli cm)))) (cacheBrotli cm)"
    and "cacheGzip cm' = filter (\<lambda>e. fst e \<notin> set (map fst
      (filter (\<lambda>e. isStale h now2 (cacheDuration cm) (snd e)) (cacheGzip cm)))) (cacheGzip cm)"
    and "cacheZstd cm' = filter (\<lambda>e. fst e \<notin> set (map fst
      (filter (\<lambda>e. isStale h now3 (cacheDuration cm) (snd e)) (cacheZstd cm)))) (cacheZstd cm)"
    unfolding cleanCacheLocked_eq by simp_all
qed


lemma sweep_lists:
  assumes a: "cleanCacheLocked cm h n0 n1 n2 n3 pf = (cm', pend, rel)"
  shows "pend = filter (\<lambda>ff. readersCount (h ff) > 0) pf
       @ map snd (filter (\<lambda>e. isStale h n0 (cacheDuration cm) (snd e) \<and> readersCount (h (snd e)) > 0) (cache cm))
       @ map snd (filter (\<lambda>e. isStale h n1 (cacheDuration cm) (snd e) \<and> readersCount (h (snd e)) > 0) (cacheBrotli cm))
       @ map snd (filter (\<lambda>e. isStale h n2 (cacheDuration cm) (snd e) \<and> readersCount (h (snd e)) > 0) (cacheGzip cm))
       @ map snd (filter (\<lambda>e. isStale h n3 (cacheDuration cm) (snd e) \<and> readersCount (h (snd e)) > 0) (cacheZstd cm))"
   and "rel = filter (\<lambda>ff. \<not> readersCount (h ff) > 0) pf
       @ map snd (filter (\<lambda>e. isStale h n0 (cacheDuration cm) (snd e) \<and> \<not> readersCount (h (snd e)) > 0) (cache cm))
       @ map snd (filter (\<lambda>e. isStale h n1 (cacheDuration cm) (snd e) \<and> \<not> readersCount (h (snd e)) > 0) (cacheBrotli cm))
       @ map snd (filter (\<lambda>e. isStale h n2 (cacheDuration cm) (snd e) \<and> \<not> readersCount (h (snd e)) > 0) (cacheGzip cm))
       @ map snd (filter (\<lambda>e. isStale h n3 (cacheDuration cm) (snd e) \<and> \<not> readersCount (h (snd e)) > 0) (cacheZstd cm))"
  using a unfolding cleanCacheLocked_eq by simp_all

lemma sweep_stale_goes:
  assumes a: "cleanCacheLocked cm h n0 n1 n2 n3 pf = (cm', pend, rel)"
  shows "(k, ff) \<in> set (cache cm) \<Longrightarrow> isStale h n0 (cacheDuration cm) ff \<Longrightarrow>
      (if readersCount (h ff) > 0 then ff \<in> set pend else ff \<in> set rel)"
    and "(k, ff) \<in> set (cacheBrotli cm) \<Longrightarrow> isStale h n1 (cacheDuration cm) ff \<Longrightarrow>
      (if readersCount (h ff) > 0 then ff \<in> set pend else ff \<in> set rel)"
    and "(k, ff) \<in> set (cacheGzip cm) \<Longrightarrow> isStale h n2 (cacheDuration cm) ff \<Longrightarrow>
      (if readersCount (h ff) > 0 then ff \<in> set pend else ff \<in> set rel)"
    and "(k, ff) \<in> set (cacheZstd cm) \<Longrightarrow> isStale h n3 (cacheDuration cm) ff \<Longrightarrow>
      (if readersCount (h ff) > 0 then ff \<in> set pend else ff \<in> set rel)"
  unfolding sweep_lists[OF a] by (force simp: image_iff)+

lemma sweep_later:
  assumes b: "cleanCacheLocked cm' h2 m0 m1 m2 m3 pend = (cm2, pend2, rel2)"
  shows "\<forall>ff \<in> set pend.
      if readersCount (h2 ff) > 0 then ff \<in> set pend2 \<and> ff \<notin> set rel2 else ff \<in> set rel2"
proof
  fix ff
  assume m: "ff \<in> set pend"
  note f = sweep_rel_no_readers[OF b]
  show "if readersCount (h2 ff) > 0 then ff \<in> set pend2 \<and> ff \<notin> set rel2 else ff \<in> set rel2"
  proof (cases "readersCount (h2 ff) > 0")
    case True
    with f(3) m have "ff \<in> set pend2" by (simp split: if_splits)
    moreover from f(1) True have "ff \<notin> set rel2" by blast
    ultimately show ?thesis using True by simp
  next
    case False
    with f(3) m show ?thesis by (simp split: if_splits)
  qed
qed

text \<open>
  Claim C3. In one sweep (\<open>cleanCache\<close>; \<open>rel\<close> are the files it releases and
  \<open>pend\<close> the pending list it returns): an entry with a reader count above zero is
  not released and its record is untouched; every file of the returned pending list has
  readers; every file deferred by an earlier sweep is released now if its count is no
  longer positive (its handle, if any, is closed) and deferred again otherwise; in each
  of the four partitions every entry older than the cache duration at that partition's
  clock reading leaves the index, with readers into the pending list and without into
  the released ones, and what stays in the index is not stale. The last part spells out
  the later sweep: of the files this sweep deferred, the next one releases exactly those
  whose count is no longer positive.
\<close>

theorem cleanCache_defers_readers_evicts_stale:
  "cleanCacheLocked cm h now0 now1 now2 now3 pendingFiles = (cm', pend, rel) \<longrightarrow>
     cleanCache cm h now0 now1 now2 now3 pendingFiles = (pend, cm', foldl Release h rel)
   \<and> (\<forall>ff. readersCount (h ff) > 0 \<longrightarrow> ff \<notin> set rel \<and> foldl Release h rel ff = h ff)
   \<and> (\<forall>ff \<in> set pend. readersCount (h ff) > 0)
   \<and> (\<forall>ff \<in> set pendingFiles.
         if readersCount (h ff) > 0 then ff \<in> set pend
         else ff \<in> set rel \<and> (ff_f (h ff) \<longrightarrow> f_closed (foldl Release h rel ff)))
   \<and> (\<forall>k ff. (k, ff) \<in> set (cache cm) \<and> isStale h now0 (cacheDuration cm) ff \<longrightarrow>
         k \<notin> fst ` set (cache cm') \<and>
         (if readersCount (h ff) > 0 then ff \<in> set pend else ff \<in> set rel))
   \<and> (\<forall>k ff. (k, ff) \<in> set (cacheBrotli cm) \<and> isStale h now1 (cacheDuration cm) ff \<longrightarrow>
         k \<notin> fst ` set (cacheBrotli cm') \<and>
         (if readersCount (h ff) > 0 then ff \<in> set pend else ff \<in> set rel))
   \<and> (\<forall>k ff. (k, ff) \<in> set (cacheGzip cm) \<and> isStale h now2 (cacheDuration cm) ff \<longrightarrow>
         k \<notin> fst ` set (cacheGzip cm') \<and>
         (if readersCount (h ff) > 0 then ff \<in> set pend else ff \<in> set rel))
   \<and> (\<forall>k ff. (k, ff) \<in> set (cacheZstd cm) \<and> isStale h now3 (cacheDuration cm) ff \<longrightarrow>
         k \<notin> fst ` set (cacheZstd cm') \<and>
         (if readersCount (h ff) > 0 then ff \<in> set pend else ff \<in> set rel))
   \<and> (\<forall>(k, ff) \<in> set (cache cm').
         (k, ff) \<in> set (cache cm) \<and> \<not> isStale h now0 (cacheDuration cm) ff)
   \<and> (\<forall>(k, ff) \<in> set (cacheBrotli cm').
         (k, ff) \<in> set (cacheBrotli cm) \<and> \<not> isStale h now1 (cacheDuration cm) ff)
   \<and> (\<forall>(k, ff) \<in> set (cacheGzip cm').
         (k, ff) \<in> set (cacheGzip cm) \<and> \<not> isStale h now2 (cacheDuration cm) ff)
   \<and> (\<forall>(k, ff) \<in> set (cacheZstd cm').
         (k, ff) \<in> set (cacheZstd cm) \<and> \<not> isStale h now3 (cacheDuration cm) ff)
   \<and> (\<forall>h2 m0 m1 m2 m3 cm2 pend2 rel2.
         cleanCacheLocked cm' h2 m0 m1 m2 m3 pend = (cm2, pend2, rel2) \<longrightarrow>
         (\<forall>ff \<in> set pend.
            if readersCount (h2 ff) > 0 then ff \<in> set pend2 \<and> ff \<notin> set rel2
            else ff \<in> set rel2))"
proof
  assume a: "cleanCacheLocked cm h now0 now1 now2 now3 pendingFiles = (cm', pend, rel)"
  let ?d = "cacheDuration cm"
  note c0 = sweep_caches(1)[OF a] and c1 = sweep_caches(2)[OF a]
    and c2 = sweep_caches(3)[OF a] and c3 = sweep_caches(4)[OF a]
  have relN: "\<forall>ff \<in> set rel. \<not> readersCount (h ff) > 0"
    and pendP: "\<forall>ff \<in> set pend. readersCount (h ff) > 0"
    and old: "\<forall>ff \<in> set pendingFiles.
        if readersCount (h ff) > 0 then ff \<in> set pend else ff \<in> set rel"
    using sweep_rel_no_readers[OF a] by blast+
  have s0: "\<forall>k ff. (k, ff) \<in> set (cache cm) \<and> isStale h now0 ?d ff \<longrightarrow>
      (if readersCount (h ff) > 0 then ff \<in> set pend else ff \<in> set rel)"
    using sweep_stale_goes(1)[OF a] by blast
  have s1: "\<forall>k ff. (k, ff) \<in> set (cacheBrotli cm) \<and> isStale h now1 ?d ff \<longrightarrow>
      (if readersCount (h ff) > 0 then ff \<in> set pend else ff \<in> set rel)"
    using sweep_stale_goes(2)[OF a] by blast
  have s2: "\<forall>k ff. (k, ff) \<in> set (cacheGzip cm) \<and> isStale h now2 ?d ff \<longrightarrow>
      (if readersCount (h ff) > 0 then ff \<in> set pend else ff \<in> set rel)"
    using sweep_stale_goes(3)[OF a] by blast
  have s3: "\<forall>k ff. (k, ff) \<in> set (cacheZstd cm) \<and> isStale h now3 ?d ff \<longrightarrow>
      (if readersCount (h ff) > 0 then ff \<in> set pend else ff \<in> set rel)"
    using sweep_stale_goes(4)[OF a] by blast
  show "cleanCache cm h now0 now1 now2 now3 pendingFiles = (pend, cm', foldl Release h rel)
   \<and> (\<forall>ff. readersCount (h ff) > 0 \<longrightarrow> ff \<notin> set rel \<and> foldl Release h rel ff = h ff)
   \<and> (\<forall>ff \<in> set pend. readersCount (h ff) > 0)
   \<and> (\<forall>ff \<in> set pendingFiles.
         if readersCount (h ff) > 0 then ff \<in> set pend
         else ff \<in> set rel \<and> (ff_f (h ff) \<longrightarrow> f_closed (foldl Release h rel ff)))
   \<and> (\<forall>k ff. (k, ff) \<in> set (cache cm) \<and> isStale h now0 (cacheDuration cm) ff \<longrightarrow>
         k \<notin> fst ` set (cache cm') \<and>
         (if readersCount (h ff) > 0 then ff \<in> set pend else ff \<in> set rel))
   \<and> (\<forall>k ff. (k, ff) \<in> set (cacheBrotli cm) \<and> isStale h now1 (cacheDuration cm) ff \<longrightarrow>
         k \<notin> fst ` set (cacheBrotli cm') \<and>
         (if readersCount (h ff) > 0 then ff \<in> set pend else ff \<in> set rel))
   \<and> (\<forall>k ff. (k, ff) \<in> set (cacheGzip cm) \<and> isStale h now2 (cacheDuration cm) ff \<longrightarrow>
         k \<notin> fst ` set (cacheGzip cm') \<and>
         (if readersCount (h ff) > 0 then ff \<in> set pend else ff \<in> set rel))
   \<and> (\<forall>k ff. (k, ff) \<in> set (cacheZstd cm) \<and> isStale h now3 (cacheDuration cm) ff \<longrightarrow>
         k \<notin> fst ` set (cacheZstd cm') \<and>
         (if readersCount (h ff) > 0 then ff \<in> set pend else ff \<in> set rel))
   \<and> (\<forall>(k, ff) \<in> set (cache cm').
         (k, ff) \<in> set (cache cm) \<and> \<not> isStale h now0 (cacheDuration cm) ff)
   \<and> (\<forall>(k, ff) \<in> set (cacheBrotli cm').
         (k, ff) \<in> set (cacheBrotli cm) \<and> \<not> isStale h now1 (cacheDuration cm) ff)
   \<and> (\<forall>(k, ff) \<in> set (cacheGzip cm').
         (k, ff) \<in> set (cacheGzip cm) \<and> \<not> isStale h now2 (cacheDuration cm) ff)
   \<and> (\<forall>(k, ff) \<in> set (cacheZstd cm').
         (k, ff) \<in> set (cacheZstd cm) \<and> \<not> isStale h now3 (cacheDuration cm) ff)
   \<and> (\<forall>h2 m0 m1 m2 m3 cm2 pend2 rel2.
         cleanCacheLocked cm' h2 m0 m1 m2 m3 pend = (cm2, pend2, rel2) \<longrightarrow>
         (\<forall>ff \<in> set pend.
            if readersCount (h2 ff) > 0 then ff \<in> set pend2 \<and> ff \<notin> set rel2
            else ff \<in> set rel2))"
  proof (intro conjI)
    show "cleanCache cm h now0 now1 now2 now3 pendingFiles = (pend, cm', foldl Release h rel)"
      by (simp add: cleanCache_def a)
    show "\<forall>ff. readersCount (h ff) > 0 \<longrightarrow> ff \<notin> set rel \<and> foldl Release h rel ff = h ff"
      using relN by (auto simp: foldl_Release)
    show "\<forall>ff \<in> set pend. readersCount (h ff) > 0"
      by (rule pendP)
    show "\<forall>ff \<in> set pendingFiles.
         if readersCount (h ff) > 0 then ff \<in> set pend
         else ff \<in> set rel \<and> (ff_f (h ff) \<longrightarrow> f_closed (foldl Release h rel ff))"
      using old by (auto simp: foldl_Release)
    show "\<forall>k ff. (k, ff) \<in> set (cache cm) \<and> isStale h now0 ?d ff \<longrightarrow>
         k \<notin> fst ` set (cache cm') \<and>
         (if readersCount (h ff) > 0 then ff \<in> set pend else ff \<in> set rel)"
      using sweep_partition(1)[OF c0] s0 by blast
    show "\<forall>k ff. (k, ff) \<in> set (cacheBrotli cm) \<and> isStale h now1 ?d ff \<longrightarrow>
         k \<notin> fst ` set (cacheBrotli cm') \<and>
         (if readersCount (h ff) > 0 then ff \<in> set pend else ff \<in> set rel)"
      using sweep_partition(1)[OF c1] s1 by blast
    show "\<forall>k ff. (k, ff) \<in> set (cacheGzip cm) \<and> isStale h now2 ?d ff \<longrightarrow>
         k \<notin> fst ` set (cacheGzip cm') \<and>
         (if readersCount (h ff) > 0 then ff \<in> set pend else ff \<in> set rel)"
      using sweep_partition(1)[OF c2] s2 by blast
    show "\<forall>k ff. (k, ff) \<in> set (cacheZstd cm) \<and> isStale h now3 ?d ff \<longrightarrow>
         k \<notin> fst ` set (cacheZstd cm') \<and>
         (if readersCount (h ff) > 0 then ff \<in> set pend else ff \<in> set rel)"
      using sweep_partition(1)[OF c3] s3 by blast
    show "\<forall>(k, ff) \<in> set (cache cm').
         (k, ff) \<in> set (cache cm) \<and> \<not> isStale h now0 ?d ff"
      by (rule sweep_partition(2)[OF c0])
    show "\<forall>(k, ff) \<in> set (cacheBrotli cm').
         (k, ff) \<in> set (cacheBrotli cm) \<and> \<not> isStale h now1 ?d ff"
      by (rule sweep_partition(2)[OF c1])
    show "\<forall>(k, ff) \<in> set (cacheGzip cm').
         (k, ff) \<in> set (cacheGzip cm) \<and> \<not> isStale h now2 ?d ff"
      by (rule sweep_partition(2)[OF c2])
    show "\<forall>(k, ff) \<in> set (cacheZstd cm').
         (k, ff) \<in> set (cacheZstd cm) \<and> \<not> isStale h now3 ?d ff"
      by (rule sweep_partition(2)[OF c3])
    show "\<forall>h2 m0 m1 m2 m3 cm2 pend2 rel2.
         cleanCacheLocked cm' h2 m0 m1 m2 m3 pend = (cm2, pend2, rel2) \<longrightarrow>
         (\<forall>ff \<in> set pend.
            if readersCount (h2 ff) > 0 then ff \<in> set pend2 \<and> ff \<notin> set rel2
            else ff \<in> set rel2)"
      using sweep_later by blast
  qed
qed

theorem cleanCache_defers_readers_evicts_stale_witness:
  "cleanCache ((newInMemoryCacheManager 10)\<lparr>cache := [(''/a'', 1), (''/b'', 2)]\<rparr>)
     (\<lambda>a. zeroFsFile\<lparr>ff_f := True, readersCount := (if a = 1 then 1 else 0)\<rparr>)
     11 11 11 11 [3]
   = ([1], newInMemoryCacheManager 10,
      foldl Release (\<lambda>a. zeroFsFile\<lparr>ff_f := True, readersCount := (if a = 1 then 1 else 0)\<rparr>)
        [3, 2])
   \<and> \<not> f_closed (foldl Release
        (\<lambda>a. zeroFsFile\<lparr>ff_f := True, readersCount := (if a = 1 then 1 else 0)\<rparr>) [3, 2] 1)
   \<and> f_closed (foldl Release
        (\<lambda>a. zeroFsFile\<lparr>ff_f := True, readersCount := (if a = 1 then 1 else 0)\<rparr>) [3, 2] 2)
   \<and> f_closed (foldl Release
        (\<lambda>a. zeroFsFile\<lparr>ff_f := True, readersCount := (if a = 1 then 1 else 0)\<rparr>) [3, 2] 3)"
proof -
  let ?cm = "(newInMemoryCacheManager 10)\<lparr>cache := [(''/a'', 1), (''/b'', 2)]\<rparr>"
  let ?h = "\<lambda>a::addr. zeroFsFile\<lparr>ff_f := True, readersCount := (if a = 1 then 1 else 0)\<rparr>"
  have lk: "cleanCacheLocked ?cm ?h 11 11 11 11 [3] = (newInMemoryCacheManager 10, [1], [3, 2])"
    by (simp add: cleanCacheLocked_def cleanCacheNolock_def newInMemoryCacheManager_def
        zeroFsFile_def Sub_def minDuration_def maxDuration_def Let_def AList.delete_eq)
  note t = cleanCache_defers_readers_evicts_stale[of ?cm ?h 11 11 11 11 "[3]"
      "newInMemoryCacheManager 10" "[1]" "[3, 2]", THEN mp, OF lk]
  have "cleanCache ?cm ?h 11 11 11 11 [3] =
      ([1], newInMemoryCacheManager 10, foldl Release ?h [3, 2])"
    by (rule t[THEN conjunct1])
  moreover have "\<not> f_closed (foldl Release ?h [3, 2] 1)"
    by (simp add: Release_def zeroFsFile_def)
  moreover have "f_closed (foldl Release ?h [3, 2] 2)"
    by (simp add: Release_def zeroFsFile_def)
  moreover have "f_closed (foldl Release ?h [3, 2] 3)"
    by (simp add: Release_def zeroFsFile_def)
  ultimately show ?thesis by blast
qed

section \<open>The reader count\<close>

lemma inc_bounded:
  assumes "\<forall>a. 0 \<le> readersCount (h a) \<and> readersCount (h a) \<le> B" and "B < maxInt"
  shows "0 \<le> readersCount (incReadersCount h ff a) \<and>
         readersCount (incReadersCount h ff a) \<le> B + 1"
proof (cases "a = ff")
  case True
  from assms have r: "0 \<le> readersCount (h ff)" "readersCount (h ff) \<le> B" by simp_all
  with assms(2) have "readersCount (incReadersCount h ff ff) = readersCount (h ff) + 1"
    by (intro readersCount_inc_in_range) simp_all
  with r True show ?thesis by simp
next
  case False
  with assms(1) have "0 \<le> readersCount (h a)" "readersCount (h a) \<le> B" by simp_all
  with False show ?thesis by (simp add: readersCount_inc)
qed

lemma dec_bounded:
  assumes "\<forall>a. 0 \<le> readersCount (h a) \<and> readersCount (h a) \<le> B" and "B < maxInt"
  shows "0 \<le> readersCount (decReadersCount h ff a) \<and>
         readersCount (decReadersCount h ff a) \<le> B + 1"
proof (cases "a = ff")
  case True
  from assms have r: "0 \<le> readersCount (h ff)" "readersCount (h ff) \<le> B" by simp_all
  with assms(2) have "wrapInt (readersCount (h ff) - 1) = readersCount (h ff) - 1"
    by (intro wrapInt_id) (simp_all add: minInt_def)
  with r True show ?thesis by (simp add: readersCount_dec)
next
  case False
  with assms(1) have "0 \<le> readersCount (h a)" "readersCount (h a) \<le> B" by simp_all
  with False show ?thesis by (simp add: readersCount_dec)
qed

lemma cacheStep_bounded:
  assumes b: "\<forall>a. 0 \<le> readersCount (h a) \<and> readersCount (h a) \<le> B" and m: "B < maxInt"
  shows "\<forall>a. 0 \<le> readersCount (snd (cacheStep (cm, h) x) a) \<and>
             readersCount (snd (cacheStep (cm, h) x) a) \<le> B + 1"
proof (cases x)
  case (opGetFileFromCache k p)
  show ?thesis
  proof (cases "map_of (getFsCache cm k) p")
    case None
    with b show ?thesis
      by (simp add: opGetFileFromCache GetFileFromCache_def) (meson add_increasing2 zero_le_one)
  next
    case (Some ff)
    with inc_bounded[OF b m] show ?thesis
      by (simp add: opGetFileFromCache GetFileFromCache_def)
  qed
next
  case (opSetFileToCache k p ff)
  show ?thesis
  proof (cases "map_of (getFsCache cm k) p")
    case None
    with inc_bounded[OF b m] show ?thesis
      by (simp add: opSetFileToCache SetFileToCache_miss)
  next
    case (Some ff1)
    with inc_bounded[OF b m] show ?thesis
      by (simp add: opSetFileToCache SetFileToCache_hit readersCount_Release)
  qed
next
  case (opDecReadersCount ff)
  with dec_bounded[OF b m] show ?thesis by simp
qed

lemma cacheRun_bounded:
  "\<forall>a. 0 \<le> readersCount (snd s a) \<and> readersCount (snd s a) \<le> B \<Longrightarrow>
   B + int (length ops) \<le> maxInt \<Longrightarrow>
   \<forall>a. 0 \<le> readersCount (snd (cacheRun s ops) a) \<and>
       readersCount (snd (cacheRun s ops) a) \<le> B + int (length ops)"
proof (induction ops arbitrary: s B)
  case Nil
  then show ?case by (simp add: cacheRun_def)
next
  case (Cons x ops)
  obtain cm h where s: "s = (cm, h)" by (cases s) auto
  from Cons.prems(2) have m: "B < maxInt" by simp
  from Cons.prems(1) have "\<forall>a. 0 \<le> readersCount (h a) \<and> readersCount (h a) \<le> B"
    by (simp add: s)
  from cacheStep_bounded[OF this m]
  have st: "\<forall>a. 0 \<le> readersCount (snd (cacheStep (cm, h) x) a) \<and>
             readersCount (snd (cacheStep (cm, h) x) a) \<le> B + 1" .
  from Cons.prems(2) have "B + 1 + int (length ops) \<le> maxInt" by simp
  from Cons.IH[OF st this] show ?case by (simp add: cacheRun_def s add.assoc)
qed

text \<open>
  Claim C4. Over every sequence of \<open>GetFileFromCache\<close>, \<open>SetFileToCache\<close> and
  \<open>decReadersCount\<close> steps, each atomic under the lock, no reader count is negative
  after any step when none was at the start (a new entry starts at zero) and the
  sequence is too short to carry a count past the largest \<open>int\<close>, where the increment of
  the machine integer wraps: each step adds at most one to a count, so after \<open>n\<close> steps
  a count is at most \<open>n\<close> above its start. The decrement clamps at zero for every count
  a run can hold, and a cache hit returns the entry with its count incremented.
\<close>

theorem readersCount_never_negative:
  "((\<forall>a. 0 \<le> readersCount (h a) \<and> readersCount (h a) + int (length ops) \<le> maxInt) \<longrightarrow>
      (\<forall>n a. 0 \<le> readersCount (snd (cacheRun (cm, h) (take n ops)) a) \<and>
             readersCount (snd (cacheRun (cm, h) (take n ops)) a)
               \<le> maxInt - int (length ops) + int (min n (length ops))))
   \<and> 0 \<le> readersCount (decReadersCount h ff ff)
   \<and> (minInt < readersCount (h ff) \<and> readersCount (h ff) \<le> maxInt \<longrightarrow>
        readersCount (decReadersCount h ff ff) = max 0 (readersCount (h ff) - 1))
   \<and> (\<forall>ff1. map_of (getFsCache cm cacheKind) path = Some ff1 \<longrightarrow>
        GetFileFromCache cm h cacheKind path = (Some ff1, incReadersCount h ff1) \<and>
        readersCount (incReadersCount h ff1 ff1) = wrapInt (readersCount (h ff1) + 1) \<and>
        (0 \<le> readersCount (h ff1) \<and> readersCount (h ff1) < maxInt \<longrightarrow>
           readersCount (incReadersCount h ff1 ff1) = readersCount (h ff1) + 1))"
proof (intro conjI impI allI)
  fix n a
  assume b: "\<forall>a. 0 \<le> readersCount (h a) \<and> readersCount (h a) + int (length ops) \<le> maxInt"
  define B where "B = maxInt - int (length ops)"
  from b have s: "\<forall>a. 0 \<le> readersCount (snd (cm, h) a) \<and> readersCount (snd (cm, h) a) \<le> B"
    by (simp add: B_def algebra_simps)
  have "B + int (length (take n ops)) \<le> maxInt" by (simp add: B_def)
  from cacheRun_bounded[OF s this]
  have r: "0 \<le> readersCount (snd (cacheRun (cm, h) (take n ops)) a) \<and>
        readersCount (snd (cacheRun (cm, h) (take n ops)) a)
          \<le> B + int (length (take n ops))"
    by blast
  from r show "0 \<le> readersCount (snd (cacheRun (cm, h) (take n ops)) a)" by simp
  from r show "readersCount (snd (cacheRun (cm, h) (take n ops)) a)
      \<le> maxInt - int (length ops) + int (min n (length ops))"
    by (simp add: B_def min.commute)
next
  show "0 \<le> readersCount (decReadersCount h ff ff)"
    by (simp add: readersCount_dec)
next
  assume "minInt < readersCount (h ff) \<and> readersCount (h ff) \<le> maxInt"
  then have "wrapInt (readersCount (h ff) - 1) = readersCount (h ff) - 1"
    by (intro wrapInt_id) simp_all
  then show "readersCount (decReadersCount h ff ff) = max 0 (readersCount (h ff) - 1)"
    by (simp add: readersCount_dec)
next
  fix ff1
  assume a: "map_of (getFsCache cm cacheKind) path = Some ff1"
  then show "GetFileFromCache cm h cacheKind path = (Some ff1, incReadersCount h ff1)"
    by (simp add: GetFileFromCache_def)
  show "readersCount (incReadersCount h ff1 ff1) = wrapInt (readersCount (h ff1) + 1)"
    by (simp add: readersCount_inc)
  show "readersCount (incReadersCount h ff1 ff1) = readersCount (h ff1) + 1"
    if "0 \<le> readersCount (h ff1) \<and> readersCount (h ff1) < maxInt"
    using that by (simp add: readersCount_inc_in_range)
qed

theorem readersCount_never_negative_witness:
  "map (\<lambda>a. readersCount (snd (cacheRun (newInMemoryCacheManager 0, \<lambda>a. zeroFsFile)
       [opDecReadersCount 1, opSetFileToCache brotliCacheKind ''/a'' 1,
        opGetFileFromCache brotliCacheKind ''/a'', opDecReadersCount 1,
        opDecReadersCount 1, opDecReadersCount 1]) a)) [0, 1, 2] = [0, 0, 0]
   \<and> 0 \<le> readersCount (snd (cacheRun (newInMemoryCacheManager 0, \<lambda>a. zeroFsFile)
       (take 6 [opDecReadersCount 1, opSetFileToCache brotliCacheKind ''/a'' 1,
        opGetFileFromCache brotliCacheKind ''/a'', opDecReadersCount 1,
        opDecReadersCount 1, opDecReadersCount 1])) 1)
   \<and> readersCount (snd (cacheRun (newInMemoryCacheManager 0, \<lambda>a. zeroFsFile)
       [opDecReadersCount 1, opSetFileToCache brotliCacheKind ''/a'' 1,
        opGetFileFromCache brotliCacheKind ''/a'']) 1) = 2"
proof -
  let ?ops = "[opDecReadersCount 1, opSetFileToCache brotliCacheKind ''/a'' 1,
        opGetFileFromCache brotliCacheKind ''/a'', opDecReadersCount 1,
        opDecReadersCount 1, opDecReadersCount 1]"
  have z: "\<forall>a::addr. 0 \<le> readersCount (zeroFsFile) \<and>
      readersCount (zeroFsFile) + int (length ?ops) \<le> maxInt"
    by (simp add: zeroFsFile_def maxInt_def)
  from readersCount_never_negative[where h="\<lambda>a. zeroFsFile"
      and cm="newInMemoryCacheManager 0" and ops="?ops"]
  have inv: "\<forall>n a. 0 \<le> readersCount
      (snd (cacheRun (newInMemoryCacheManager 0, \<lambda>a. zeroFsFile) (take n ?ops)) a)"
    using z by blast
  have ev: "map (\<lambda>a. readersCount (snd (cacheRun (newInMemoryCacheManager 0, \<lambda>a. zeroFsFile)
       ?ops) a)) [0, 1, 2] = [0, 0, 0]"
    by (simp add: cacheRun_def decReadersCount_def SetFileToCache_def GetFileFromCache_def
        Let_def getFsCache_def setFsCache_def newInMemoryCacheManager_def zeroFsFile_def
        incReadersCount_def kinds_distinct wrapInt_id minInt_def maxInt_def)
  have ev2: "readersCount (snd (cacheRun (newInMemoryCacheManager 0, \<lambda>a. zeroFsFile)
       [opDecReadersCount 1, opSetFileToCache brotliCacheKind ''/a'' 1,
        opGetFileFromCache brotliCacheKind ''/a'']) 1) = 2"
    by (simp add: cacheRun_def decReadersCount_def SetFileToCache_def GetFileFromCache_def
        Let_def getFsCache_def setFsCache_def newInMemoryCacheManager_def zeroFsFile_def
        incReadersCount_def kinds_distinct wrapInt_id minInt_def maxInt_def)
  from inv have "0 \<le> readersCount
      (snd (cacheRun (newInMemoryCacheManager 0, \<lambda>a. zeroFsFile) (take 6 ?ops)) 1)"
    by blast
  with ev ev2 show ?thesis by blast
qed

section \<open>The handler: lemmas about its parts\<close>


lemma negotiateEncoding_cases:
  "negotiateEncoding hdl ctx =
     (if peekRange ctx = [] \<and> compress hdl \<and> compressBrotli hdl \<and> HasAcceptEncodingBr ctx
      then (True, brotliCacheKind, ''br'')
      else if peekRange ctx = [] \<and> compress hdl \<and> compressZstd hdl \<and> HasAcceptEncodingZstd ctx
      then (True, zstdCacheKind, ''zstd'')
      else if peekRange ctx = [] \<and> compress hdl \<and> HasAcceptEncodingGzip ctx
      then (True, gzipCacheKind, ''gzip'')
      else (False, defaultCacheKind, []))"
  by (simp add: negotiateEncoding_def Let_def)

lemma kinds_distinct0:
  "brotliCacheKind \<noteq> defaultCacheKind" "gzipCacheKind \<noteq> defaultCacheKind"
  "zstdCacheKind \<noteq> defaultCacheKind" "defaultCacheKind \<noteq> brotliCacheKind"
  "defaultCacheKind \<noteq> gzipCacheKind" "defaultCacheKind \<noteq> zstdCacheKind"
  by (simp_all add: brotliCacheKind_def gzipCacheKind_def zstdCacheKind_def defaultCacheKind_def)

lemma prepareBody_not_modified:
  "\<not> IfModifiedSince ctx (lastModified (h ff)) \<Longrightarrow>
     prepareBody hdl env ctx path fileEncoding (es, ff, cmgr, h) =
       Returned (es @ [NotModified]) cmgr (decReadersCount h ff)"
  by (simp add: prepareBody_def)

lemma dec_inc:
  assumes "0 \<le> readersCount (h ff)" and "readersCount (h ff) \<le> maxInt"
  shows "decReadersCount (incReadersCount h ff) ff = h"
proof (cases "readersCount (h ff) = maxInt")
  case True
  have w: "wrapInt (maxInt + 1) = minInt" "wrapInt (minInt - 1) = maxInt"
    by (rule wrapInt_maxInt, rule wrapInt_minInt)
  have m: "\<not> maxInt < 0" by (simp add: maxInt_def)
  have e: "(h ff)\<lparr>readersCount := maxInt\<rparr> = h ff"
    unfolding True[symmetric] by simp
  have "decReadersCount (incReadersCount h ff) ff =
      h(ff := (h ff)\<lparr>readersCount := maxInt\<rparr>)"
    by (simp add: decReadersCount_def incReadersCount_def Let_def True w m)
  then show ?thesis by (simp only: e fun_upd_triv)
next
  case False
  with assms have a: "wrapInt (readersCount (h ff) + 1) = readersCount (h ff) + 1"
    by (intro wrapInt_id) (simp_all add: minInt_def)
  from assms have "wrapInt (readersCount (h ff)) = readersCount (h ff)"
    by (intro wrapInt_id) (simp_all add: minInt_def)
  with a assms(1) show ?thesis
    by (simp add: decReadersCount_def incReadersCount_def Let_def)
qed






lemma openFSFile_effects: "list_all isFileEffect (fst (openFSFile hdl env p mc enc))"
  by (simp add: openFSFile_def Let_def split: sum.split)

lemma openIndexFile_loop_effects:
  "list_all isFileEffect (fst (openIndexFile_loop hdl env p mc enc names))"
proof (induction names)
  case Nil
  then show ?case by simp
next
  case (Cons n names)
  let ?p = "if p \<noteq> [] then p @ ''/'' @ n else n"
  have a: "list_all isFileEffect (fst (openFSFile hdl env ?p mc enc))"
    and b: "list_all isFileEffect (fst (openFSFile hdl env ?p False enc))"
    by (rule openFSFile_effects)+
  obtain es res where o1: "openFSFile hdl env ?p mc enc = (es, res)" by force
  obtain es2 res2 where o2: "openFSFile hdl env ?p False enc = (es2, res2)" by force
  obtain es3 res3 where o3: "openIndexFile_loop hdl env p mc enc names = (es3, res3)" by force
  from a b Cons.IH show ?case
    by (cases res) (simp_all add: Let_def o1 o2 o3)
qed

lemma openIndexFile_effects:
  "list_all isFileEffect (fst (openIndexFile hdl env p mc enc))"
  by (simp add: openIndexFile_def openIndexFile_loop_effects)

lemma openFSFile_effectsD:
  "openFSFile hdl env p mc enc = (es, r) \<Longrightarrow> list_all isFileEffect es"
  using openFSFile_effects[of hdl env p mc enc] by simp

lemma openIndexFile_effectsD:
  "openIndexFile hdl env p mc enc = (es, r) \<Longrightarrow> list_all isFileEffect es"
  using openIndexFile_effects[of hdl env p mc enc] by simp

lemma Get_miss:
  "cacheManager_GetFileFromCache cmgr h k p = (None, h1) \<Longrightarrow> h1 = h"
  by (auto simp: cacheManager_GetFileFromCache_def GetFileFromCache_def
      split: cacheManager.splits option.splits)

lemma isFileEffect_other:
  "isFileEffect e \<Longrightarrow> \<not> isTraversalLog e \<and> \<not> isReaderEffect e"
  by (cases e rule: isFileEffect.cases) auto

text \<open>What acquireFile can answer.\<close>

lemma acquireFile_shape:
  assumes "acquireFile hdl env path (mc, kind, enc) cmgr h = res"
  shows "(\<exists>ff h1. cacheManager_GetFileFromCache cmgr h kind path = (Some ff, h1) \<and>
            res = Proceed ([], ff, cmgr, h1))
       \<or> (cacheManager_GetFileFromCache cmgr h kind path = (None, h) \<and>
           ((\<exists>es tl. list_all isFileEffect es \<and>
                list_all (\<lambda>e. \<not> isTraversalLog e \<and> \<not> isReaderEffect e) tl \<and>
                res = Returned (es @ tl) cmgr h)
            \<or> (\<exists>es cand ff' cmgr' h2. list_all isFileEffect es \<and>
                cacheManager_SetFileToCache cmgr h kind path cand = (ff', cmgr', h2) \<and>
                res = Proceed (es, ff', cmgr', h2))))"
proof (cases "cacheManager_GetFileFromCache cmgr h kind path")
  case (Pair found h1)
  show ?thesis
  proof (cases found)
    case (Some ff)
    with Pair assms show ?thesis by (auto simp: acquireFile_def Let_def)
  next
    case None
    with Pair have h1: "h1 = h" by (auto dest: Get_miss)
    define hts where "hts = (length path > 0 \<and> last path = CHR ''/'')"
    define fp where "fp = pathToFilePath hdl (if hts then butlast path else path)"
    obtain es1 res1 where o1: "openFSFile hdl env fp mc enc = (es1, res1)" by force
    obtain es1' res1' where o1': "openFSFile hdl env fp False enc = (es1', res1')" by force
    define es2 where "es2 = (if mc \<and> res1 = Inl errNoCreatePermission
        then es1 @ [Logf (logNoCreatePermission fp)] @ es1' else es1)"
    define mc2 where "mc2 = (if mc \<and> res1 = Inl errNoCreatePermission then False else mc)"
    define res2 where "res2 = (if mc \<and> res1 = Inl errNoCreatePermission then res1' else res1)"
    have f2: "list_all isFileEffect es2"
      using openFSFile_effectsD[OF o1] openFSFile_effectsD[OF o1'] by (simp add: es2_def)
    obtain es3 res3 where o3: "openIndexFile hdl env fp mc2 enc = (es3, res3)" by force
    have f3: "list_all isFileEffect es3" using openIndexFile_effectsD[OF o3] .
    have second: "(if mc \<and> res1 = Inl errNoCreatePermission
                    then (case openFSFile hdl env fp False enc of
                            (es, res) \<Rightarrow>
                              (es1 @ [Logf (logNoCreatePermission fp)] @ es, False, res))
                    else (es1, mc, res1)) = (es2, mc2, res2)"
      by (simp add: es2_def mc2_def res2_def o1')
    have unfold: "(case res2 of
                 Inl err \<Rightarrow>
                   if errorsIs err errDirIndexRequired then
                     (if \<not> hts
                      then Returned (es2 @ [RedirectBytes (path @ ''/'') StatusFound]) cmgr h
                      else
                        (case openIndexFile hdl env fp mc2 enc of
                           (es3, Inl err3) \<Rightarrow>
                             Returned (es2 @ es3 @
                               [Logf (logCannotOpenDirIndex fp err3),
                                ctxError ''Directory index is forbidden'' StatusForbidden])
                               cmgr h
                         | (es3, Inr ff) \<Rightarrow>
                             (case cacheManager_SetFileToCache cmgr h kind path ff of
                                (ff', cmgr', h2) \<Rightarrow> Proceed (es2 @ es3, ff', cmgr', h2))))
                   else
                     Returned (es2 @ [Logf (logCannotOpenFile fp err)] @
                       (if \<not> pathNotFound hdl
                        then [ctxError ''Cannot open requested path'' StatusNotFound]
                        else [SetStatusCode StatusNotFound, callPathNotFound])) cmgr h
               | Inr ff \<Rightarrow>
                   (case cacheManager_SetFileToCache cmgr h kind path ff of
                      (ff', cmgr', h2) \<Rightarrow> Proceed (es2, ff', cmgr', h2))) = res"
      using assms unfolding acquireFile_def Let_def hts_def[symmetric] fp_def[symmetric]
      by (simp only: Pair None h1 o1 second prod.case option.case)
    have miss: "cacheManager_GetFileFromCache cmgr h kind path = (None, h)"
      using Pair None h1 by simp
    show ?thesis
    proof (cases res2)
      case (Inr ff)
      obtain ff' cmgr' h2 where s: "cacheManager_SetFileToCache cmgr h kind path ff = (ff', cmgr', h2)"
        by (cases "cacheManager_SetFileToCache cmgr h kind path ff") auto
      with unfold Inr have "res = Proceed (es2, ff', cmgr', h2)" by auto
      with f2 s miss show ?thesis by blast
    next
      case (Inl err)
      show ?thesis
      proof (cases "errorsIs err errDirIndexRequired")
        case False
        let ?tl = "[Logf (logCannotOpenFile fp err)] @
                       (if \<not> pathNotFound hdl
                        then [ctxError ''Cannot open requested path'' StatusNotFound]
                        else [SetStatusCode StatusNotFound, callPathNotFound])"
        have "res = Returned (es2 @ ?tl) cmgr h" using unfold Inl False by auto
        moreover have "list_all (\<lambda>e. \<not> isTraversalLog e \<and> \<not> isReaderEffect e) ?tl" by simp
        ultimately show ?thesis using f2 miss by blast
      next
        case True
        show ?thesis
        proof (cases hts)
          case False
          then have "res = Returned (es2 @ [RedirectBytes (path @ ''/'') StatusFound]) cmgr h"
            using unfold Inl True by auto
          moreover have "list_all (\<lambda>e. \<not> isTraversalLog e \<and> \<not> isReaderEffect e)
              [RedirectBytes (path @ ''/'') StatusFound]" by simp
          ultimately show ?thesis using f2 miss by blast
        next
          case hts: True
          show ?thesis
          proof (cases res3)
            case (Inl err3)
            let ?tl = "[Logf (logCannotOpenDirIndex fp err3),
                                ctxError ''Directory index is forbidden'' StatusForbidden]"
            have "res = Returned ((es2 @ es3) @ ?tl) cmgr h"
              using unfold \<open>res2 = Inl err\<close> True hts Inl o3 by auto
            moreover have "list_all (\<lambda>e. \<not> isTraversalLog e \<and> \<not> isReaderEffect e) ?tl" by simp
            moreover have "list_all isFileEffect (es2 @ es3)" using f2 f3 by simp
            ultimately show ?thesis using miss by blast
          next
            case (Inr ff)
            obtain ff' cmgr' h2 where s: "cacheManager_SetFileToCache cmgr h kind path ff = (ff', cmgr', h2)"
              by (cases "cacheManager_SetFileToCache cmgr h kind path ff") auto
            have "res = Proceed (es2 @ es3, ff', cmgr', h2)"
              using unfold \<open>res2 = Inl err\<close> True hts Inr s o3 by auto
            moreover have "list_all isFileEffect (es2 @ es3)" using f2 f3 by simp
            ultimately show ?thesis using s miss by blast
          qed
        qed
      qed
    qed
  qed
qed

lemma prepareBody_Returned:
  assumes "prepareBody hdl env ctx path enc (es, ff, cmgr, h) = Returned es' cmgr' h'"
    and "\<not> list_ex isTraversalLog es"
  shows "cmgr' = cmgr \<and> \<not> list_ex isTraversalLog es'"
  using assms
  by (auto simp: prepareBody_def Let_def split: prod.splits sum.splits option.splits if_splits)

lemma prepareBody_Proceed:
  assumes "prepareBody hdl env ctx path enc (es, ff, cmgr, h) =
      Proceed (es', ff', r, n, st, cmgr', h')"
    and "\<not> list_ex isTraversalLog es"
  shows "cmgr' = cmgr \<and> ff' = ff \<and> \<not> list_ex isTraversalLog es'"
  using assms
  by (auto simp: prepareBody_def Let_def split: prod.splits sum.splits option.splits if_splits)

lemma emit_effects:
  assumes "emit env ctx (es, ff, r, n, st, cmgr, h) = (es', cmgr', h')"
    and "\<not> list_ex isTraversalLog es"
  shows "cmgr' = cmgr \<and> \<not> list_ex isTraversalLog es'"
  using assms
  by (auto simp: emit_def Let_def split: prod.splits option.splits if_splits)

lemma fileEffects_no_traversal:
  "list_all isFileEffect es \<Longrightarrow> \<not> list_ex isTraversalLog es"
  by (induction es) (auto dest: isFileEffect_other)

lemma after_acquire:
  assumes pb: "prepareBody hdl env ctx path enc (es0, ff, c, h1) = pb"
    and nt: "\<not> list_ex isTraversalLog es0"
    and fin: "(case pb of Returned es c' h' \<Rightarrow> (es, c', h') | Proceed prep \<Rightarrow> emit env ctx prep)
       = (es', c', h')"
  shows "c' = c \<and> \<not> list_ex isTraversalLog es'"
proof (cases pb)
  case (Returned es c'' h'')
  with fin have "es' = es" "c' = c''" by simp_all
  with prepareBody_Returned[OF pb[unfolded Returned] nt] show ?thesis by simp
next
  case (Proceed prep)
  obtain es1 ff1 r n st c1 h2 where prep: "prep = (es1, ff1, r, n, st, c1, h2)"
    by (cases prep) auto
  from prepareBody_Proceed[OF pb[unfolded Proceed prep] nt]
  have a: "c1 = c" "\<not> list_ex isTraversalLog es1" by simp_all
  from fin Proceed prep have "emit env ctx (es1, ff1, r, n, st, c1, h2) = (es', c', h')"
    by simp
  from emit_effects[OF this a(2)] a(1) show ?thesis by simp
qed

lemma handleRequest_unfold:
  assumes "rewrittenPath hdl ctx = Inr path" and "checkPath hdl path = None"
    and "negotiateEncoding hdl ctx = (mc, kind, enc)"
  shows "handleRequest hdl env ctx cmgr h =
     Inr (case acquireFile hdl env path (mc, kind, enc) cmgr h of
            Returned es c' h' \<Rightarrow> (es, c', h')
          | Proceed acquired \<Rightarrow>
              (case prepareBody hdl env ctx path enc acquired of
                 Returned es c' h' \<Rightarrow> (es, c', h')
               | Proceed prep \<Rightarrow> emit env ctx prep))"
  using assms by (simp add: handleRequest_def beforeEmit_def split: stage.split)

lemma handleRequest_after_check:
  assumes rp: "rewrittenPath hdl ctx = Inr path" and cp: "checkPath hdl path = None"
    and ne: "negotiateEncoding hdl ctx = (mc, kind, enc)"
    and hr: "handleRequest hdl env ctx cmgr h = Inr (es, cmgr', h')"
  shows "\<not> list_ex isTraversalLog es \<and>
     (cmgr' = cmgr \<or>
      (\<exists>cand ff' h2. cacheManager_SetFileToCache cmgr h kind path cand = (ff', cmgr', h2)))"
proof -
  note u = hr[unfolded handleRequest_unfold[OF rp cp ne]]
  from acquireFile_shape[OF refl, where hdl=hdl and env=env and path=path and mc=mc
      and kind=kind and enc=enc and cmgr=cmgr and h=h]
  consider (hit) ff h1 where
      "acquireFile hdl env path (mc, kind, enc) cmgr h = Proceed ([], ff, cmgr, h1)"
    | (ret) es0 tl where "list_all isFileEffect es0"
      "list_all (\<lambda>e. \<not> isTraversalLog e \<and> \<not> isReaderEffect e) tl"
      "acquireFile hdl env path (mc, kind, enc) cmgr h = Returned (es0 @ tl) cmgr h"
    | (put) es0 cand ff' c2 h2 where "list_all isFileEffect es0"
      "cacheManager_SetFileToCache cmgr h kind path cand = (ff', c2, h2)"
      "acquireFile hdl env path (mc, kind, enc) cmgr h = Proceed (es0, ff', c2, h2)"
    by blast
  then show ?thesis
  proof cases
    case hit
    from u have "(case prepareBody hdl env ctx path enc ([], ff, cmgr, h1) of
        Returned es c' h' \<Rightarrow> (es, c', h') | Proceed prep \<Rightarrow> emit env ctx prep) = (es, cmgr', h')"
      by (simp add: hit)
    from after_acquire[OF refl _ this] show ?thesis by simp
  next
    case ret
    from u have "es = es0 @ tl" "cmgr' = cmgr" by (simp_all add: ret(3))
    moreover have "\<not> list_ex isTraversalLog es0"
      using ret(1) by (rule fileEffects_no_traversal)
    moreover have "\<not> list_ex isTraversalLog tl"
      using ret(2) by (induction tl) auto
    ultimately show ?thesis by (auto simp: list_ex_iff)
  next
    case put
    from u have "(case prepareBody hdl env ctx path enc (es0, ff', c2, h2) of
        Returned es c' h' \<Rightarrow> (es, c', h') | Proceed prep \<Rightarrow> emit env ctx prep) = (es, cmgr', h')"
      by (simp add: put(3))
    from after_acquire[OF refl fileEffects_no_traversal[OF put(1)] this] put(2)
    show ?thesis by blast
  qed
qed

lemma checkPath_cases:
  "checkPath hdl path =
     (if CHR 0x00 \<in> set path then
        Some [Logf (logNilByte (IndexByte path (CHR 0x00)) path),
              ctxError ''Are you a hacker?'' StatusBadRequest]
      else if pathRewrite hdl \<noteq> None \<and> (\<exists>u v. path = u @ ''/../'' @ v) then
        Some [Logf (logSlashDotDot (Index path strSlashDotDotSlash) path),
              ctxError ''Internal Server Error'' StatusInternalServerError]
      else None)"
proof -
  have a: "(0 \<le> Index path strSlashDotDotSlash) = (\<exists>u v. path = u @ ''/../'' @ v)"
    unfolding Index_ge0_iff by (simp add: strSlashDotDotSlash_def)
  show ?thesis
    unfolding checkPath_def Let_def IndexByte_ge0_iff a by auto
qed

lemma handleRequest_rejected:
  "rewrittenPath hdl ctx = Inr path \<Longrightarrow> checkPath hdl path = Some es \<Longrightarrow>
     handleRequest hdl env ctx cmgr h = Inr (es, cmgr, h)"
  by (simp add: handleRequest_def beforeEmit_def)

text \<open>
  Claim C6. Every path with a NUL byte is answered with 400 and nothing else happens: no
  file is opened and the cache manager and the store are as before. That check comes
  first; a path that passes it and contains \<open>/../\<close> is answered with 500, again with
  nothing else happening, when the path came from a rewrite function; and only then:
  without a rewrite function, or without \<open>/../\<close> in the path, no run of the handler
  writes the log entry of that rejection.
\<close>

theorem handleRequest_path_checks:
  "rewrittenPath hdl ctx = Inr path \<longrightarrow>
     (CHR 0x00 \<in> set path \<longrightarrow>
        handleRequest hdl env ctx cmgr h =
          Inr ([Logf (logNilByte (IndexByte path (CHR 0x00)) path),
                ctxError ''Are you a hacker?'' 400], cmgr, h))
   \<and> (CHR 0x00 \<notin> set path \<and> pathRewrite hdl \<noteq> None \<and> (\<exists>u v. path = u @ ''/../'' @ v) \<longrightarrow>
        handleRequest hdl env ctx cmgr h =
          Inr ([Logf (logSlashDotDot (Index path strSlashDotDotSlash) path),
                ctxError ''Internal Server Error'' 500], cmgr, h))
   \<and> (CHR 0x00 \<notin> set path \<and> \<not> (pathRewrite hdl \<noteq> None \<and> (\<exists>u v. path = u @ ''/../'' @ v)) \<longrightarrow>
        (\<forall>es cmgr' h'. handleRequest hdl env ctx cmgr h = Inr (es, cmgr', h') \<longrightarrow>
           \<not> list_ex isTraversalLog es))"
proof (intro impI conjI allI)
  assume rp: "rewrittenPath hdl ctx = Inr path"
  {
    assume "CHR 0x00 \<in> set path"
    then have "checkPath hdl path =
        Some [Logf (logNilByte (IndexByte path (CHR 0x00)) path),
              ctxError ''Are you a hacker?'' StatusBadRequest]"
      by (simp add: checkPath_cases)
    from handleRequest_rejected[OF rp this]
    show "handleRequest hdl env ctx cmgr h =
          Inr ([Logf (logNilByte (IndexByte path (CHR 0x00)) path),
                ctxError ''Are you a hacker?'' 400], cmgr, h)"
      by (simp add: StatusBadRequest_def)
  }
  {
    assume "CHR 0x00 \<notin> set path \<and> pathRewrite hdl \<noteq> None \<and> (\<exists>u v. path = u @ ''/../'' @ v)"
    then have "checkPath hdl path =
        Some [Logf (logSlashDotDot (Index path strSlashDotDotSlash) path),
              ctxError ''Internal Server Error'' StatusInternalServerError]"
      unfolding checkPath_cases by simp
    from handleRequest_rejected[OF rp this]
    show "handleRequest hdl env ctx cmgr h =
          Inr ([Logf (logSlashDotDot (Index path strSlashDotDotSlash) path),
                ctxError ''Internal Server Error'' 500], cmgr, h)"
      by (simp add: StatusInternalServerError_def)
  }
  {
    fix es cmgr' h'
    assume a: "CHR 0x00 \<notin> set path \<and>
        \<not> (pathRewrite hdl \<noteq> None \<and> (\<exists>u v. path = u @ ''/../'' @ v))"
      and hr: "handleRequest hdl env ctx cmgr h = Inr (es, cmgr', h')"
    from a have cp: "checkPath hdl path = None"
      unfolding checkPath_cases by simp
    obtain mc kind enc where ne: "negotiateEncoding hdl ctx = (mc, kind, enc)"
      by (cases "negotiateEncoding hdl ctx") auto
    from handleRequest_after_check[OF rp cp ne hr]
    show "\<not> list_ex isTraversalLog es" by simp
  }
qed

theorem handleRequest_path_checks_witness:
  "handleRequest ((FSHandler ''/srv'' 0)\<lparr>pathRewrite := Some (NewPathPrefixStripper 0)\<rparr>)
     noFiles (plainRequest ''/x/../y'') noopCacheManager (\<lambda>a. zeroFsFile) =
     Inr ([Logf (logSlashDotDot 2 ''/x/../y''), ctxError ''Internal Server Error'' 500],
          noopCacheManager, \<lambda>a. zeroFsFile)
   \<and> handleRequest (FSHandler ''/srv'' 0) noFiles
       (plainRequest [CHR ''/'', CHR 0x00]) noopCacheManager (\<lambda>a. zeroFsFile) =
     Inr ([Logf (logNilByte 1 [CHR ''/'', CHR 0x00]), ctxError ''Are you a hacker?'' 400],
          noopCacheManager, \<lambda>a. zeroFsFile)
   \<and> fst (projr (handleRequest (FSHandler ''/srv'' 0) noFiles (plainRequest ''/x/../y'')
       noopCacheManager (\<lambda>a. zeroFsFile))) =
     [callOpen ''/srv/x/../y'', Logf (logCannotOpenFile ''/srv/x/../y'' ErrNotExist),
      ctxError ''Cannot open requested path'' 404]
   \<and> \<not> list_ex isTraversalLog
       (fst (projr (handleRequest (FSHandler ''/srv'' 0) noFiles (plainRequest ''/x/../y'')
          noopCacheManager (\<lambda>a. zeroFsFile))))"
proof -
  let ?hr = "(FSHandler ''/srv'' 0)\<lparr>pathRewrite := Some (NewPathPrefixStripper 0)\<rparr>"
  let ?h = "\<lambda>a::addr. zeroFsFile"
  have ex: "\<exists>u v. ''/x/../y'' = u @ ''/../'' @ v"
  proof -
    have "''/x/../y'' = ''/x'' @ ''/../'' @ ''y''" by simp
    then show ?thesis by blast
  qed
  have r1: "rewrittenPath ?hr (plainRequest ''/x/../y'') = Inr ''/x/../y''"
    by (simp add: rewrittenPath_def FSHandler_def NewPathPrefixStripper_def plainRequest_def)
  have r2: "rewrittenPath (FSHandler ''/srv'' 0) (plainRequest p) = Inr p" for p
    by (simp add: rewrittenPath_def FSHandler_def plainRequest_def)
  have i: "Index ''/x/../y'' strSlashDotDotSlash = 2"
    by (simp add: strSlashDotDotSlash_def HasPrefix_def)
  have a: "handleRequest ?hr noFiles (plainRequest ''/x/../y'') noopCacheManager ?h =
     Inr ([Logf (logSlashDotDot 2 ''/x/../y''), ctxError ''Internal Server Error'' 500],
          noopCacheManager, ?h)"
    using handleRequest_path_checks[of ?hr "plainRequest ''/x/../y''" "''/x/../y''"
        noFiles noopCacheManager ?h] r1 ex i
    by simp
  have b: "handleRequest (FSHandler ''/srv'' 0) noFiles
       (plainRequest [CHR ''/'', CHR 0x00]) noopCacheManager ?h =
     Inr ([Logf (logNilByte 1 [CHR ''/'', CHR 0x00]), ctxError ''Are you a hacker?'' 400],
          noopCacheManager, ?h)"
    using handleRequest_path_checks[of "FSHandler ''/srv'' 0"
        "plainRequest [CHR ''/'', CHR 0x00]" "[CHR ''/'', CHR 0x00]"
        noFiles noopCacheManager ?h] r2
    by simp
  have c: "handleRequest (FSHandler ''/srv'' 0) noFiles (plainRequest ''/x/../y'')
       noopCacheManager ?h =
     Inr ([callOpen ''/srv/x/../y'', Logf (logCannotOpenFile ''/srv/x/../y'' ErrNotExist),
        ctxError ''Cannot open requested path'' 404], noopCacheManager, ?h)"
    by (simp add: handleRequest_def beforeEmit_def rewrittenPath_def checkPath_def
        FSHandler_def strSlashDotDotSlash_def HasPrefix_def negotiateEncoding_def plainRequest_def acquireFile_def Let_def
        cacheManager_GetFileFromCache_def pathToFilePath_def openFSFile_def noFiles_def
        StatusNotFound_def)
  from a b c show ?thesis by simp
qed




lemma SetFileToCache_default_frame:
  assumes "SetFileToCache cm h defaultCacheKind path cand = (ff', cm', h2)"
  shows "cacheBrotli cm' = cacheBrotli cm \<and> cacheGzip cm' = cacheGzip cm \<and>
     cacheZstd cm' = cacheZstd cm"
  using assms
  by (auto simp: SetFileToCache_def Let_def setFsCache_def kinds_distinct0
      split: option.splits)

text \<open>
  Claim C5. An encoding is negotiated only when the \<open>Range\<close> header is empty and
  compression is enabled. Brotli is chosen when it is enabled and accepted; otherwise
  zstd when it is enabled and accepted; otherwise gzip when it is accepted (gzip has no
  flag of its own: it is enabled with compression). Each choice comes with its own cache
  partition. When nothing is negotiated the partition is the default one: a run of the
  handler on an in-memory cache leaves the three other partitions as they were, and an
  entry of the default partition under the path is a hit.
\<close>

theorem negotiateEncoding_preference:
  "negotiateEncoding hdl ctx = (mustCompress, fileCacheKind, fileEncoding) \<longrightarrow>
     (mustCompress \<longrightarrow> peekRange ctx = [] \<and> compress hdl)
   \<and> ((mustCompress \<and> fileCacheKind = brotliCacheKind \<and> fileEncoding = ''br'') =
        (peekRange ctx = [] \<and> compress hdl \<and> compressBrotli hdl \<and> HasAcceptEncodingBr ctx))
   \<and> ((mustCompress \<and> fileCacheKind = zstdCacheKind \<and> fileEncoding = ''zstd'') =
        (peekRange ctx = [] \<and> compress hdl \<and>
         \<not> (compressBrotli hdl \<and> HasAcceptEncodingBr ctx) \<and>
         compressZstd hdl \<and> HasAcceptEncodingZstd ctx))
   \<and> ((mustCompress \<and> fileCacheKind = gzipCacheKind \<and> fileEncoding = ''gzip'') =
        (peekRange ctx = [] \<and> compress hdl \<and>
         \<not> (compressBrotli hdl \<and> HasAcceptEncodingBr ctx) \<and>
         \<not> (compressZstd hdl \<and> HasAcceptEncodingZstd ctx) \<and>
         HasAcceptEncodingGzip ctx))
   \<and> ((\<not> mustCompress) = (fileCacheKind = defaultCacheKind))
   \<and> ((\<not> mustCompress) = (fileEncoding = []))
   \<and> (\<not> mustCompress \<longrightarrow>
        (\<forall>env cm h path es cmgr' h'.
           rewrittenPath hdl ctx = Inr path \<and>
           handleRequest hdl env ctx (inMemory cm) h = Inr (es, cmgr', h') \<longrightarrow>
           (\<exists>cm'. cmgr' = inMemory cm' \<and> cacheBrotli cm' = cacheBrotli cm \<and>
              cacheGzip cm' = cacheGzip cm \<and> cacheZstd cm' = cacheZstd cm))
      \<and> (\<forall>env cm h path ff.
           map_of (cache cm) path = Some ff \<longrightarrow>
           acquireFile hdl env path (mustCompress, fileCacheKind, fileEncoding)
             (inMemory cm) h =
           Proceed ([], ff, inMemory cm, incReadersCount h ff)))"
proof
  assume ne: "negotiateEncoding hdl ctx = (mustCompress, fileCacheKind, fileEncoding)"
  note c = ne[unfolded negotiateEncoding_cases]
  have p1: "mustCompress \<longrightarrow> peekRange ctx = [] \<and> compress hdl"
    using c by (auto split: if_splits)
  have p2: "(mustCompress \<and> fileCacheKind = brotliCacheKind \<and> fileEncoding = ''br'') =
        (peekRange ctx = [] \<and> compress hdl \<and> compressBrotli hdl \<and> HasAcceptEncodingBr ctx)"
    using c by (auto simp: kinds_distinct kinds_distinct0 split: if_splits)
  have p3: "(mustCompress \<and> fileCacheKind = zstdCacheKind \<and> fileEncoding = ''zstd'') =
        (peekRange ctx = [] \<and> compress hdl \<and>
         \<not> (compressBrotli hdl \<and> HasAcceptEncodingBr ctx) \<and>
         compressZstd hdl \<and> HasAcceptEncodingZstd ctx)"
    using c by (auto simp: kinds_distinct kinds_distinct0 split: if_splits)
  have p4: "(mustCompress \<and> fileCacheKind = gzipCacheKind \<and> fileEncoding = ''gzip'') =
        (peekRange ctx = [] \<and> compress hdl \<and>
         \<not> (compressBrotli hdl \<and> HasAcceptEncodingBr ctx) \<and>
         \<not> (compressZstd hdl \<and> HasAcceptEncodingZstd ctx) \<and>
         HasAcceptEncodingGzip ctx)"
    using c by (auto simp: kinds_distinct kinds_distinct0 split: if_splits)
  have p5: "(\<not> mustCompress) = (fileCacheKind = defaultCacheKind)"
    using c by (auto simp: kinds_distinct0 split: if_splits)
  have p6: "(\<not> mustCompress) = (fileEncoding = [])"
    using c by (auto split: if_splits)
  have p7: "\<exists>cm'. cmgr' = inMemory cm' \<and> cacheBrotli cm' = cacheBrotli cm \<and>
              cacheGzip cm' = cacheGzip cm \<and> cacheZstd cm' = cacheZstd cm"
    if nm: "\<not> mustCompress" and rp: "rewrittenPath hdl ctx = Inr path"
      and hr: "handleRequest hdl env ctx (inMemory cm) h = Inr (es, cmgr', h')"
    for env cm h path es cmgr' h'
  proof (cases "checkPath hdl path")
    case (Some es0)
    from handleRequest_rejected[OF rp Some, of env "inMemory cm" h] hr
    show ?thesis by simp
  next
    case None
    from nm p5 have k: "fileCacheKind = defaultCacheKind" by simp
    from handleRequest_after_check[OF rp None ne hr]
    have "cmgr' = inMemory cm \<or>
      (\<exists>cand ff' h2. cacheManager_SetFileToCache (inMemory cm) h defaultCacheKind path cand
          = (ff', cmgr', h2))"
      by (simp add: k)
    then show ?thesis
    proof
      assume "cmgr' = inMemory cm"
      then show ?thesis by simp
    next
      assume "\<exists>cand ff' h2. cacheManager_SetFileToCache (inMemory cm) h defaultCacheKind
          path cand = (ff', cmgr', h2)"
      then obtain cand ff' h2 where
        s: "cacheManager_SetFileToCache (inMemory cm) h defaultCacheKind path cand
          = (ff', cmgr', h2)" by blast
      obtain f1 cm1 h1 where s1: "SetFileToCache cm h defaultCacheKind path cand = (f1, cm1, h1)"
        by (cases "SetFileToCache cm h defaultCacheKind path cand") auto
      with s have "cmgr' = inMemory cm1"
        by (simp add: cacheManager_SetFileToCache_def)
      with SetFileToCache_default_frame[OF s1] show ?thesis by simp
    qed
  qed
  have p8: "acquireFile hdl env path (mustCompress, fileCacheKind, fileEncoding)
             (inMemory cm) h = Proceed ([], ff, inMemory cm, incReadersCount h ff)"
    if nm: "\<not> mustCompress" and hit: "map_of (cache cm) path = Some ff"
    for env cm h path ff
  proof -
    from nm p5 have k: "fileCacheKind = defaultCacheKind" by simp
    have "cacheManager_GetFileFromCache (inMemory cm) h defaultCacheKind path =
        (Some ff, incReadersCount h ff)"
      using hit
      by (simp add: cacheManager_GetFileFromCache_def GetFileFromCache_def getFsCache_def
          kinds_distinct0)
    then show ?thesis
      by (simp add: acquireFile_def Let_def k)
  qed
  have q7: "\<forall>env cm h path es cmgr' h'.
           rewrittenPath hdl ctx = Inr path \<and>
           handleRequest hdl env ctx (inMemory cm) h = Inr (es, cmgr', h') \<longrightarrow>
           (\<exists>cm'. cmgr' = inMemory cm' \<and> cacheBrotli cm' = cacheBrotli cm \<and>
              cacheGzip cm' = cacheGzip cm \<and> cacheZstd cm' = cacheZstd cm)"
    if "\<not> mustCompress"
  proof (intro allI impI)
    fix env cm h path es cmgr' h'
    assume "rewrittenPath hdl ctx = Inr path \<and>
           handleRequest hdl env ctx (inMemory cm) h = Inr (es, cmgr', h')"
    then show "\<exists>cm'. cmgr' = inMemory cm' \<and> cacheBrotli cm' = cacheBrotli cm \<and>
              cacheGzip cm' = cacheGzip cm \<and> cacheZstd cm' = cacheZstd cm"
      using p7[OF that, of path env cm h es cmgr' h'] by simp
  qed
  have q8: "\<forall>env cm h path ff.
           map_of (cache cm) path = Some ff \<longrightarrow>
           acquireFile hdl env path (mustCompress, fileCacheKind, fileEncoding)
             (inMemory cm) h =
           Proceed ([], ff, inMemory cm, incReadersCount h ff)"
    if "\<not> mustCompress"
    using p8[OF that] by simp
  show "(mustCompress \<longrightarrow> peekRange ctx = [] \<and> compress hdl)
   \<and> ((mustCompress \<and> fileCacheKind = brotliCacheKind \<and> fileEncoding = ''br'') =
        (peekRange ctx = [] \<and> compress hdl \<and> compressBrotli hdl \<and> HasAcceptEncodingBr ctx))
   \<and> ((mustCompress \<and> fileCacheKind = zstdCacheKind \<and> fileEncoding = ''zstd'') =
        (peekRange ctx = [] \<and> compress hdl \<and>
         \<not> (compressBrotli hdl \<and> HasAcceptEncodingBr ctx) \<and>
         compressZstd hdl \<and> HasAcceptEncodingZstd ctx))
   \<and> ((mustCompress \<and> fileCacheKind = gzipCacheKind \<and> fileEncoding = ''gzip'') =
        (peekRange ctx = [] \<and> compress hdl \<and>
         \<not> (compressBrotli hdl \<and> HasAcceptEncodingBr ctx) \<and>
         \<not> (compressZstd hdl \<and> HasAcceptEncodingZstd ctx) \<and>
         HasAcceptEncodingGzip ctx))
   \<and> ((\<not> mustCompress) = (fileCacheKind = defaultCacheKind))
   \<and> ((\<not> mustCompress) = (fileEncoding = []))
   \<and> (\<not> mustCompress \<longrightarrow>
        (\<forall>env cm h path es cmgr' h'.
           rewrittenPath hdl ctx = Inr path \<and>
           handleRequest hdl env ctx (inMemory cm) h = Inr (es, cmgr', h') \<longrightarrow>
           (\<exists>cm'. cmgr' = inMemory cm' \<and> cacheBrotli cm' = cacheBrotli cm \<and>
              cacheGzip cm' = cacheGzip cm \<and> cacheZstd cm' = cacheZstd cm))
      \<and> (\<forall>env cm h path ff.
           map_of (cache cm) path = Some ff \<longrightarrow>
           acquireFile hdl env path (mustCompress, fileCacheKind, fileEncoding)
             (inMemory cm) h =
           Proceed ([], ff, inMemory cm, incReadersCount h ff)))"
    using p1 p2 p3 p4 p5 p6 q7 q8 by (intro conjI impI) (assumption | simp)+
qed

theorem negotiateEncoding_preference_witness:
  "negotiateEncoding rootFS ((plainRequest ''/a'')\<lparr>HasAcceptEncodingBr := True,
       HasAcceptEncodingZstd := True, HasAcceptEncodingGzip := True\<rparr>) =
     (True, brotliCacheKind, ''br'')
   \<and> negotiateEncoding (rootFS\<lparr>compressBrotli := False\<rparr>)
       ((plainRequest ''/a'')\<lparr>HasAcceptEncodingBr := True,
       HasAcceptEncodingZstd := True, HasAcceptEncodingGzip := True\<rparr>) =
     (True, zstdCacheKind, ''zstd'')
   \<and> negotiateEncoding (rootFS\<lparr>compressBrotli := False, compressZstd := False\<rparr>)
       ((plainRequest ''/a'')\<lparr>HasAcceptEncodingBr := True,
       HasAcceptEncodingZstd := True, HasAcceptEncodingGzip := True\<rparr>) =
     (True, gzipCacheKind, ''gzip'')
   \<and> negotiateEncoding rootFS ((plainRequest ''/a'')\<lparr>HasAcceptEncodingBr := True,
       peekRange := ''bytes=0-1''\<rparr>) = (False, defaultCacheKind, [])
   \<and> acquireFile rootFS noFiles ''/a'' (False, defaultCacheKind, [])
       (inMemory ((newInMemoryCacheManager 0)\<lparr>cache := [(''/a'', 1)]\<rparr>)) (\<lambda>a. zeroFsFile) =
     Proceed ([], 1, inMemory ((newInMemoryCacheManager 0)\<lparr>cache := [(''/a'', 1)]\<rparr>),
       incReadersCount (\<lambda>a. zeroFsFile) 1)"
proof -
  let ?ctx = "(plainRequest ''/a'')\<lparr>HasAcceptEncodingBr := True, peekRange := ''bytes=0-1''\<rparr>"
  let ?cm = "(newInMemoryCacheManager 0)\<lparr>cache := [(''/a'', 1)]\<rparr>"
  have n: "negotiateEncoding rootFS ?ctx = (False, defaultCacheKind, [])"
    by (simp add: negotiateEncoding_def rootFS_def plainRequest_def)
  have hit: "map_of (cache ?cm) ''/a'' = Some 1" by simp
  note t = negotiateEncoding_preference[of rootFS ?ctx False defaultCacheKind "[]",
      THEN mp, OF n]
  from t have "\<forall>env cm h path ff.
           map_of (cache cm) path = Some ff \<longrightarrow>
           acquireFile rootFS env path (False, defaultCacheKind, []) (inMemory cm) h =
           Proceed ([], ff, inMemory cm, incReadersCount h ff)"
    by simp
  from this[rule_format, OF hit]
  have "acquireFile rootFS noFiles ''/a'' (False, defaultCacheKind, []) (inMemory ?cm)
      (\<lambda>a. zeroFsFile) = Proceed ([], 1, inMemory ?cm, incReadersCount (\<lambda>a. zeroFsFile) 1)" .
  then show ?thesis
    by (simp add: negotiateEncoding_def rootFS_def plainRequest_def)
qed

lemma decReadersCount_at:
  "decReadersCount h ff ff =
     (h ff)\<lparr>readersCount := max 0 (wrapInt (readersCount (h ff) - 1))\<rparr>"
  by (simp add: decReadersCount_def Let_def max_def)

lemma decReadersCount_at_in_range:
  assumes "minInt < readersCount (h ff) \<and> readersCount (h ff) \<le> maxInt"
  shows "decReadersCount h ff ff = (h ff)\<lparr>readersCount := max 0 (readersCount (h ff) - 1)\<rparr>"
proof -
  from assms have "wrapInt (readersCount (h ff) - 1) = readersCount (h ff) - 1"
    by (intro wrapInt_id) simp_all
  then show ?thesis by (simp add: decReadersCount_at)
qed

lemma decReadersCount_other: "a \<noteq> ff \<Longrightarrow> decReadersCount h ff a = h a"
  by (simp add: decReadersCount_def Let_def)

lemma acquireFile_Proceed_effects:
  assumes "acquireFile hdl env path (mc, kind, enc) cmgr h = Proceed (es, ff, cmgr', h')"
  shows "list_all isFileEffect es"
  using acquireFile_shape[OF assms] by auto

lemma fileEffects_no_reader:
  "list_all isFileEffect es \<Longrightarrow> \<not> list_ex isReaderEffect es"
  by (induction es) (auto dest: isFileEffect_other)

text \<open>
  Claim C8. \<open>IfModifiedSince\<close> answers False when the header is present and equal to or
  after the entry's last-modified time. When it answers False for the entry the handler
  holds after the cache lookup or the put, the handler's whole answer is the effects of
  the acquisition followed by \<open>NotModified\<close> (304, no body), no reader or body stream
  among them; the cache manager is the one the acquisition left, and the store differs
  only in the entry's reader count, decremented (as a machine integer) and clamped at
  zero. On a hit of the in-memory cache the count, a non-negative \<open>int\<close>, goes up by one
  and down by one, so the store is exactly as before the request.
\<close>

theorem handleRequest_not_modified:
  "(peekIfModifiedSince ctx = Some d \<and> lastModified (h ff) \<le> d \<longrightarrow>
      \<not> IfModifiedSince ctx (lastModified (h ff)))
   \<and> (\<not> IfModifiedSince ctx (lastModified (h ff)) \<longrightarrow>
        prepareBody hdl env ctx path fileEncoding (es, ff, cmgr, h) =
          Returned (es @ [NotModified]) cmgr (decReadersCount h ff))
   \<and> (rewrittenPath hdl ctx = Inr path \<and> checkPath hdl path = None \<and>
       negotiateEncoding hdl ctx = (mustCompress, fileCacheKind, fileEncoding) \<and>
       acquireFile hdl env path (mustCompress, fileCacheKind, fileEncoding) cmgr_in h_in =
         Proceed (es, ff, cmgr, h) \<and>
       peekIfModifiedSince ctx = Some d \<and> lastModified (h ff) \<le> d \<longrightarrow>
        handleRequest hdl env ctx cmgr_in h_in =
          Inr (es @ [NotModified], cmgr, decReadersCount h ff) \<and>
        \<not> list_ex isReaderEffect (es @ [NotModified]))
   \<and> decReadersCount h ff ff =
       (h ff)\<lparr>readersCount := max 0 (wrapInt (readersCount (h ff) - 1))\<rparr>
   \<and> (minInt < readersCount (h ff) \<and> readersCount (h ff) \<le> maxInt \<longrightarrow>
        decReadersCount h ff ff = (h ff)\<lparr>readersCount := max 0 (readersCount (h ff) - 1)\<rparr>)
   \<and> (\<forall>a. a \<noteq> ff \<longrightarrow> decReadersCount h ff a = h a)
   \<and> (rewrittenPath hdl ctx = Inr path \<and> checkPath hdl path = None \<and>
       negotiateEncoding hdl ctx = (mustCompress, fileCacheKind, fileEncoding) \<and>
       map_of (getFsCache cm fileCacheKind) path = Some ff \<and>
       0 \<le> readersCount (h_in ff) \<and> readersCount (h_in ff) \<le> maxInt \<and>
       peekIfModifiedSince ctx = Some d \<and> lastModified (h_in ff) \<le> d \<longrightarrow>
        handleRequest hdl env ctx (inMemory cm) h_in = Inr ([NotModified], inMemory cm, h_in))"
proof (intro conjI impI allI)
  show "\<not> IfModifiedSince ctx (lastModified (h ff))"
    if "peekIfModifiedSince ctx = Some d \<and> lastModified (h ff) \<le> d"
    using that by (simp add: IfModifiedSince_def)
  show "prepareBody hdl env ctx path fileEncoding (es, ff, cmgr, h) =
          Returned (es @ [NotModified]) cmgr (decReadersCount h ff)"
    if "\<not> IfModifiedSince ctx (lastModified (h ff))"
    using that by (rule prepareBody_not_modified)
  show "decReadersCount h ff ff =
      (h ff)\<lparr>readersCount := max 0 (wrapInt (readersCount (h ff) - 1))\<rparr>"
    by (rule decReadersCount_at)
  show "decReadersCount h ff ff = (h ff)\<lparr>readersCount := max 0 (readersCount (h ff) - 1)\<rparr>"
    if "minInt < readersCount (h ff) \<and> readersCount (h ff) \<le> maxInt"
    using that by (rule decReadersCount_at_in_range)
  show "decReadersCount h ff a = h a" if "a \<noteq> ff" for a
    using that by (rule decReadersCount_other)
next
  assume a: "rewrittenPath hdl ctx = Inr path \<and> checkPath hdl path = None \<and>
       negotiateEncoding hdl ctx = (mustCompress, fileCacheKind, fileEncoding) \<and>
       acquireFile hdl env path (mustCompress, fileCacheKind, fileEncoding) cmgr_in h_in =
         Proceed (es, ff, cmgr, h) \<and>
       peekIfModifiedSince ctx = Some d \<and> lastModified (h ff) \<le> d"
  then have nm: "\<not> IfModifiedSince ctx (lastModified (h ff))"
    by (simp add: IfModifiedSince_def)
  from a have u: "handleRequest hdl env ctx cmgr_in h_in =
     Inr (case acquireFile hdl env path (mustCompress, fileCacheKind, fileEncoding) cmgr_in h_in of
            Returned es c' h' \<Rightarrow> (es, c', h')
          | Proceed acquired \<Rightarrow>
              (case prepareBody hdl env ctx path fileEncoding acquired of
                 Returned es c' h' \<Rightarrow> (es, c', h')
               | Proceed prep \<Rightarrow> emit env ctx prep))"
    by (intro handleRequest_unfold) simp_all
  show "handleRequest hdl env ctx cmgr_in h_in =
          Inr (es @ [NotModified], cmgr, decReadersCount h ff)"
    unfolding u using a by (simp add: prepareBody_not_modified[where h=h and ff=ff, OF nm])
  from a have "list_all isFileEffect es"
    by (intro acquireFile_Proceed_effects) blast
  then have "\<not> list_ex isReaderEffect es" by (rule fileEffects_no_reader)
  then show "\<not> list_ex isReaderEffect (es @ [NotModified])"
    by (simp add: list_ex_iff)
next
  assume a: "rewrittenPath hdl ctx = Inr path \<and> checkPath hdl path = None \<and>
       negotiateEncoding hdl ctx = (mustCompress, fileCacheKind, fileEncoding) \<and>
       map_of (getFsCache cm fileCacheKind) path = Some ff \<and>
       0 \<le> readersCount (h_in ff) \<and> readersCount (h_in ff) \<le> maxInt \<and>
       peekIfModifiedSince ctx = Some d \<and> lastModified (h_in ff) \<le> d"
  let ?h1 = "incReadersCount h_in ff"
  from a have g: "cacheManager_GetFileFromCache (inMemory cm) h_in fileCacheKind path =
      (Some ff, ?h1)"
    by (simp add: cacheManager_GetFileFromCache_def GetFileFromCache_def)
  then have acq: "acquireFile hdl env path (mustCompress, fileCacheKind, fileEncoding)
      (inMemory cm) h_in = Proceed ([], ff, inMemory cm, ?h1)"
    by (simp add: acquireFile_def Let_def)
  have lm: "lastModified (?h1 ff) = lastModified (h_in ff)"
    by (simp add: incReadersCount_def)
  with a have nm: "\<not> IfModifiedSince ctx (lastModified (?h1 ff))"
    by (simp add: IfModifiedSince_def)
  from a have u: "handleRequest hdl env ctx (inMemory cm) h_in =
     Inr (case acquireFile hdl env path (mustCompress, fileCacheKind, fileEncoding)
                 (inMemory cm) h_in of
            Returned es c' h' \<Rightarrow> (es, c', h')
          | Proceed acquired \<Rightarrow>
              (case prepareBody hdl env ctx path fileEncoding acquired of
                 Returned es c' h' \<Rightarrow> (es, c', h')
               | Proceed prep \<Rightarrow> emit env ctx prep))"
    by (intro handleRequest_unfold) simp_all
  from a have "decReadersCount ?h1 ff = h_in" by (intro dec_inc) simp_all
  then show "handleRequest hdl env ctx (inMemory cm) h_in = Inr ([NotModified], inMemory cm, h_in)"
    unfolding u
    by (simp add: acq prepareBody_not_modified[where h="?h1" and ff=ff, OF nm])
qed

theorem handleRequest_not_modified_witness:
  "handleRequest rootFS noFiles ((plainRequest ''/a'')\<lparr>peekIfModifiedSince := Some 5\<rparr>)
     (inMemory ((newInMemoryCacheManager 0)\<lparr>cache := [(''/a'', 1)]\<rparr>))
     (\<lambda>a. zeroFsFile\<lparr>lastModified := 5\<rparr>) =
   Inr ([NotModified], inMemory ((newInMemoryCacheManager 0)\<lparr>cache := [(''/a'', 1)]\<rparr>),
     \<lambda>a. zeroFsFile\<lparr>lastModified := 5\<rparr>)
   \<and> \<not> IfModifiedSince ((plainRequest ''/a'')\<lparr>peekIfModifiedSince := Some 6\<rparr>) 5
   \<and> IfModifiedSince ((plainRequest ''/a'')\<lparr>peekIfModifiedSince := Some 4\<rparr>) 5"
proof -
  let ?ctx = "(plainRequest ''/a'')\<lparr>peekIfModifiedSince := Some 5\<rparr>"
  let ?cm = "(newInMemoryCacheManager 0)\<lparr>cache := [(''/a'', 1)]\<rparr>"
  let ?h = "\<lambda>a::addr. zeroFsFile\<lparr>lastModified := 5\<rparr>"
  have rp: "rewrittenPath rootFS ?ctx = Inr ''/a''"
    by (simp add: rewrittenPath_def rootFS_def plainRequest_def)
  have cp: "checkPath rootFS ''/a'' = None"
    by (simp add: checkPath_def rootFS_def)
  have ne: "negotiateEncoding rootFS ?ctx = (False, defaultCacheKind, [])"
    by (simp add: negotiateEncoding_def rootFS_def plainRequest_def)
  have hit: "map_of (getFsCache ?cm defaultCacheKind) ''/a'' = Some 1"
    by (simp add: getFsCache_def kinds_distinct0)
  have rc: "0 \<le> readersCount (?h 1)" "readersCount (?h 1) \<le> maxInt"
    by (simp_all add: zeroFsFile_def maxInt_def)
  have hd: "peekIfModifiedSince ?ctx = Some 5" "lastModified (?h 1) \<le> 5"
    by (simp_all add: zeroFsFile_def)
  from handleRequest_not_modified[where ctx="?ctx" and hdl=rootFS and path="''/a''"
      and mustCompress=False and fileCacheKind=defaultCacheKind and fileEncoding="[]"
      and cm="?cm" and ff=1 and h_in="?h" and d=5 and env=noFiles and h="?h" and es="[]"
      and cmgr="inMemory ?cm" and cmgr_in="inMemory ?cm"]
    rp cp ne hit rc hd
  have "handleRequest rootFS noFiles ?ctx (inMemory ?cm) ?h = Inr ([NotModified], inMemory ?cm, ?h)"
    by blast
  then show ?thesis
    by (simp add: IfModifiedSince_def plainRequest_def)
qed











text \<open>
  Claim C10. With \<open>stripSlashes > 0\<close>, a non-empty path whose first byte is not a
  slash makes \<open>stripLeadingSlashes\<close> panic with "BUG: path must start with slash", and
  so do the rewriter \<open>NewPathSlashesStripper\<close> built from it and a handler that has
  this rewriter, such as the one \<open>FSHandler\<close> builds. A path that starts with a slash
  never panics: the call returns the path without its first \<open>stripSlashes\<close> slash-led
  segments, which is the empty path as soon as \<open>stripSlashes\<close> reaches the number of
  segments (no further slash to split on).
\<close>

theorem stripLeadingSlashes_contract:
  "(0 < stripSlashes \<and> path \<noteq> [] \<and> hd path \<noteq> CHR ''/'' \<longrightarrow>
      stripLeadingSlashes path stripSlashes = Inl ''BUG: path must start with slash'' \<and>
      NewPathSlashesStripper stripSlashes (ctx\<lparr>Path := path\<rparr>) =
        Inl ''BUG: path must start with slash'' \<and>
      (pathRewrite hdl = Some (NewPathSlashesStripper stripSlashes) \<longrightarrow>
         handleRequest hdl env (ctx\<lparr>Path := path\<rparr>) cmgr h =
           Inl ''BUG: path must start with slash'') \<and>
      handleRequest (FSHandler root' stripSlashes) env (ctx\<lparr>Path := path\<rparr>) cmgr h =
        Inl ''BUG: path must start with slash'')
   \<and> (path \<noteq> [] \<and> hd path = CHR ''/'' \<longrightarrow>
      stripLeadingSlashes path stripSlashes = Inr (stripSegments path stripSlashes) \<and>
      NewPathSlashesStripper stripSlashes (ctx\<lparr>Path := path\<rparr>) =
        Inr (stripSegments path stripSlashes) \<and>
      (int (length (segments path)) \<le> stripSlashes \<longrightarrow>
         stripLeadingSlashes path stripSlashes = Inr []))"
proof (intro conjI impI)
  assume a: "0 < stripSlashes \<and> path \<noteq> [] \<and> hd path \<noteq> CHR ''/''"
  then show p: "stripLeadingSlashes path stripSlashes = Inl ''BUG: path must start with slash''"
    by (simp add: stripLeadingSlashes_panic)
  then show n: "NewPathSlashesStripper stripSlashes (ctx\<lparr>Path := path\<rparr>) =
      Inl ''BUG: path must start with slash''"
    by (simp add: NewPathSlashesStripper_def)
  then show "handleRequest hdl env (ctx\<lparr>Path := path\<rparr>) cmgr h =
      Inl ''BUG: path must start with slash''"
    if "pathRewrite hdl = Some (NewPathSlashesStripper stripSlashes)"
    using that by (simp add: handleRequest_def beforeEmit_def rewrittenPath_def)
  from a n show "handleRequest (FSHandler root' stripSlashes) env (ctx\<lparr>Path := path\<rparr>) cmgr h =
      Inl ''BUG: path must start with slash''"
    by (simp add: handleRequest_def beforeEmit_def rewrittenPath_def FSHandler_def)
next
  assume a: "path \<noteq> [] \<and> hd path = CHR ''/''"
  then show r: "stripLeadingSlashes path stripSlashes = Inr (stripSegments path stripSlashes)"
    by (simp add: stripLeadingSlashes_segments)
  then show "NewPathSlashesStripper stripSlashes (ctx\<lparr>Path := path\<rparr>) =
      Inr (stripSegments path stripSlashes)"
    by (simp add: NewPathSlashesStripper_def)
  assume "int (length (segments path)) \<le> stripSlashes"
  then have "drop (nat stripSlashes) (segments path) = []"
    by simp
  with r show "stripLeadingSlashes path stripSlashes = Inr []"
    by (simp add: stripSegments_def)
qed

theorem stripLeadingSlashes_contract_witness:
  "stripLeadingSlashes ''foo/bar'' 2 = Inl ''BUG: path must start with slash''
   \<and> handleRequest (FSHandler ''/srv'' 2) noFiles (plainRequest ''foo/bar'')
       noopCacheManager (\<lambda>a. zeroFsFile) = Inl ''BUG: path must start with slash''
   \<and> stripLeadingSlashes ''/foo/bar'' 1 = Inr ''/bar''
   \<and> stripLeadingSlashes ''/foo/bar'' 2 = Inr []
   \<and> stripLeadingSlashes ''/foo/bar'' 0 = Inr ''/foo/bar''"
proof -
  have e: "(plainRequest ''foo/bar'')\<lparr>Path := ''foo/bar''\<rparr> = plainRequest ''foo/bar''"
    by (simp add: plainRequest_def)
  from stripLeadingSlashes_contract[where stripSlashes=2 and path="''foo/bar''"
      and ctx="plainRequest ''foo/bar''" and hdl="FSHandler ''/srv'' 2" and env=noFiles
      and cmgr=noopCacheManager and h="\<lambda>a. zeroFsFile" and root'="''/srv''"]
  have a: "stripLeadingSlashes ''foo/bar'' 2 = Inl ''BUG: path must start with slash''"
    and b: "handleRequest (FSHandler ''/srv'' 2) noFiles (plainRequest ''foo/bar'')
       noopCacheManager (\<lambda>a. zeroFsFile) = Inl ''BUG: path must start with slash''"
    by (simp_all add: e)
  from stripLeadingSlashes_contract[where stripSlashes=1 and path="''/foo/bar''"
      and ctx="plainRequest ''/foo/bar''" and hdl="FSHandler ''/srv'' 2" and env=noFiles
      and cmgr=noopCacheManager and h="\<lambda>a. zeroFsFile" and root'="''/srv''"]
  have c: "stripLeadingSlashes ''/foo/bar'' 1 = Inr ''/bar''"
    by (simp add: stripSegments_def)
  from stripLeadingSlashes_contract[where stripSlashes=2 and path="''/foo/bar''"
      and ctx="plainRequest ''/foo/bar''" and hdl="FSHandler ''/srv'' 2" and env=noFiles
      and cmgr=noopCacheManager and h="\<lambda>a. zeroFsFile" and root'="''/srv''"]
  have d: "stripLeadingSlashes ''/foo/bar'' 2 = Inr []"
    by (simp add: stripSegments_def)
  from stripLeadingSlashes_contract[where stripSlashes=0 and path="''/foo/bar''"
      and ctx="plainRequest ''/foo/bar''" and hdl="FSHandler ''/srv'' 2" and env=noFiles
      and cmgr=noopCacheManager and h="\<lambda>a. zeroFsFile" and root'="''/srv''"]
  have f: "stripLeadingSlashes ''/foo/bar'' 0 = Inr ''/foo/bar''"
    by (simp add: stripSegments_def)
  from a b c d f show ?thesis by simp
qed

end
